theory Spec2Isabelle
  imports Main
begin

section \<open>JavaScript values and the host's promise primitive\<close>

text \<open>
  The module \<^verbatim>\<open>src/promise.js\<close> is written against two things the host supplies: the
  Promise/A+ primitive and the timer functions. Both are modelled here once, and every
  function of the module is then translated against that model.

  A plain JavaScript value. \<open>Err m\<close> is \<^verbatim>\<open>new Error(m)\<close>, \<open>TypeErr m\<close> the TypeError the
  host raises (a call of a non-function, a property read on null or undefined), \<open>Ref a\<close>
  a reference to an object of the heap. Numbers are integers (no NaN).
\<close>

type_synonym addr = nat

datatype jsval =
  Undefined | Null | Bool bool | Num int | Str string
  | Err string | TypeErr string | Arr "jsval list" | Ref addr

text \<open>JavaScript's truthiness, as \<^verbatim>\<open>if (v)\<close>, \<^verbatim>\<open>!v\<close>, \<^verbatim>\<open>a || b\<close> and \<^verbatim>\<open>c ? x : y\<close> read it.\<close>

fun truthy :: "jsval \<Rightarrow> bool" where
  "truthy Undefined = False"
| "truthy Null = False"
| "truthy (Bool b) = b"
| "truthy (Num n) = (n \<noteq> 0)"
| "truthy (Str s) = (s \<noteq> [])"
| "truthy (Err m) = True"
| "truthy (TypeErr m) = True"
| "truthy (Arr vs) = True"
| "truthy (Ref a) = True"

text \<open>
  How a call of a caller-supplied function completes: it returns or it throws. Any value
  can be thrown.
\<close>

datatype 'a completion = Returns 'a | Throws jsval

text \<open>
  The state of a promise. In a function's result, \<open>Pending\<close> says that the promise never
  settles.
\<close>

datatype settle = Pending | Fulfilled jsval | Rejected jsval

text \<open>
  A value that is not a function: plain data, or a promise (thenable) given by the state
  it ends in. \<open>jsarg\<close> adds the functions, for the parameters whose \<^verbatim>\<open>typeof\<close> the code
  tests; a function is not taken as a thenable, whatever properties it has. The values a
  promise fulfills or rejects with, and the values thrown, are plain.
\<close>

datatype jsret = Plain jsval | Thenable settle

datatype 'f jsarg = Function 'f | Value jsret

text \<open>
  Modelled from the spec: the host's Future primitive (section 6), which is not code of
  this repository. \<open>resolve\<close> and \<open>reject\<close> are the two functions a \<^verbatim>\<open>new Promise\<close>
  executor receives, acting on the state of that promise: the first call settles it, a
  later call is a no-op. \<open>Promise_resolve\<close> is \<^verbatim>\<open>Promise.resolve(x)\<close>: a thenable is
  adopted, anything else fulfills at once.
\<close>

definition resolve :: "jsval \<Rightarrow> settle \<Rightarrow> settle" where
  "resolve v p = (case p of Pending \<Rightarrow> Fulfilled v | _ \<Rightarrow> p)"

definition reject :: "jsval \<Rightarrow> settle \<Rightarrow> settle" where
  "reject e p = (case p of Pending \<Rightarrow> Rejected e | _ \<Rightarrow> p)"

definition Promise_resolve :: "jsret \<Rightarrow> settle" where
  "Promise_resolve x = (case x of Plain v \<Rightarrow> Fulfilled v | Thenable s \<Rightarrow> s)"

section \<open>chain\<close>

text \<open>
  Objects live in a heap: an object is its list of properties, \<open>next_free\<close> the next
  address \<^verbatim>\<open>{}\<close> takes. A step of a chain is a function of the previous result and of the
  reference to the shared state object; it reads and writes the heap, and returns a value,
  returns a promise or throws. What a step does to the heap while the promise it returned
  is pending is part of its heap transformation: nothing else of the chain runs then.
\<close>

type_synonym object = "(string \<times> jsval) list"

record heap =
  cells :: "addr \<Rightarrow> object option"
  next_free :: addr

type_synonym step = "jsval \<Rightarrow> jsval \<Rightarrow> heap \<Rightarrow> heap \<times> jsret completion"

text \<open>
  One entry of the trace of step invocations: the step, the two arguments it got and how
  it completed.
\<close>

record invocation =
  i_step :: step
  i_prev :: jsval
  i_akku :: jsval
  i_result :: "jsret completion"

text \<open>
  The arrays of steps live in a store of their own, so that the caller's array and the copy
  \<open>chain\<close> works on are two addresses. A step works on the heap of objects only: it has
  no reference to the copy, and what a step might do to its caller's own array is not the
  chain's doing. \<open>invoked\<close> is the trace of the step invocations.
\<close>

record world =
  arrays :: "addr \<Rightarrow> step list option"
  next_array :: addr
  objects :: heap
  invoked :: "invocation list"

text \<open>\<^verbatim>\<open>a.slice()\<close>: a new array with the same elements; \<open>None\<close> when \<open>a\<close> is no array.\<close>

definition slice :: "addr \<Rightarrow> world \<Rightarrow> (world \<times> addr) option" where
  "slice a w =
     (case arrays w a of
        None \<Rightarrow> None
      | Some xs \<Rightarrow>
          Some (w\<lparr>arrays := (arrays w)(next_array w \<mapsto> xs), next_array := Suc (next_array w)\<rparr>,
                next_array w))"

text \<open>\<^verbatim>\<open>a.shift()\<close>: removes and returns the first element; \<open>None\<close> is \<^verbatim>\<open>undefined\<close>.\<close>

definition shift :: "addr \<Rightarrow> world \<Rightarrow> world \<times> step option" where
  "shift a w =
     (case arrays w a of
        Some (x # xs) \<Rightarrow> (w\<lparr>arrays := (arrays w)(a \<mapsto> xs)\<rparr>, Some x)
      | _ \<Rightarrow> (w, None))"

text \<open>\<^verbatim>\<open>{}\<close>: a new empty object.\<close>

definition new_object :: "world \<Rightarrow> world \<times> jsval" where
  "new_object w =
     (let h = objects w; a = next_free h
      in (w\<lparr>objects := h\<lparr>cells := (cells h)(a \<mapsto> []), next_free := Suc a\<rparr>\<rparr>, Ref a))"

text \<open>\<^verbatim>\<open>next(prevResult, akku)\<close>: the step runs on the heap; the trace records the call.\<close>

definition call_step :: "step \<Rightarrow> jsval \<Rightarrow> jsval \<Rightarrow> world \<Rightarrow> world \<times> jsret completion" where
  "call_step next prevResult akku w =
     (let (h, c) = next prevResult akku (objects w)
      in (w\<lparr>objects := h, invoked := invoked w @
             [\<lparr>i_step = next, i_prev = prevResult, i_akku = akku, i_result = c\<rparr>]\<rparr>, c))"

text \<open>
  \<^verbatim>\<open>_chainResolveNext\<close> (lines 122 to 132). The result is the state the chain's promise ends
  in, which is what the one call of \<^verbatim>\<open>resolve\<close> or \<^verbatim>\<open>reject\<close> on each path makes it:
  \<^item> \<^verbatim>\<open>if (!next) resolve(prevResult)\<close>: the array is empty (its elements are functions,
    which are truthy, so \<^verbatim>\<open>!next\<close> holds only for the \<^verbatim>\<open>undefined\<close> that \<^verbatim>\<open>shift\<close> gives on
    an empty array);
  \<^item> the step throws: \<^verbatim>\<open>catch (err) { reject(err); }\<close>;
  \<^item> \<^verbatim>\<open>Promise.resolve(next(...))\<close> fulfills: the \<^verbatim>\<open>then\<close> handler recurses;
  \<^item> it rejects: \<^verbatim>\<open>then\<close> passes the rejection on and the \<^verbatim>\<open>catch\<close> handler rejects;
  \<^item> it never settles: no handler runs.
\<close>

function chainResolveNext :: "addr \<Rightarrow> jsval \<Rightarrow> jsval \<Rightarrow> world \<Rightarrow> world \<times> settle" where
  "chainResolveNext promiseFuncs prevResult akku w =
     (case shift promiseFuncs w of
        (w1, None) \<Rightarrow> (w1, Fulfilled prevResult)
      | (w1, Some next) \<Rightarrow>
          (case call_step next prevResult akku w1 of
             (w2, Throws err) \<Rightarrow> (w2, Rejected err)
           | (w2, Returns r) \<Rightarrow>
               (case Promise_resolve r of
                  Fulfilled result \<Rightarrow> chainResolveNext promiseFuncs result akku w2
                | Rejected err \<Rightarrow> (w2, Rejected err)
                | Pending \<Rightarrow> (w2, Pending))))"
  by pat_completeness auto
termination
proof (relation "measure (\<lambda>(a, p, k, w). case arrays w a of None \<Rightarrow> 0 | Some xs \<Rightarrow> length xs)")
  show "wf (measure (\<lambda>(a, p, k, w). case arrays w a of None \<Rightarrow> 0 | Some xs \<Rightarrow> length xs))"
    by simp
next
  fix promiseFuncs :: addr and prevResult akku :: jsval and w w1 w2 :: world
    and x :: "step option" and nxt :: step and c :: "jsret completion"
    and r :: jsret and result :: jsval
  assume s: "(w1, x) = shift promiseFuncs w" "x = Some nxt"
    and c: "(w2, c) = call_step nxt prevResult akku w1"
  from s have "arrays w promiseFuncs \<noteq> None"
    by (auto simp: shift_def split: option.splits list.splits)
  then obtain xs where xs: "arrays w promiseFuncs = Some xs" by blast
  with s have "arrays w1 promiseFuncs = Some (tl xs) \<and> xs \<noteq> []"
    by (auto simp: shift_def split: option.splits list.splits)
  moreover from c have "arrays w2 = arrays w1"
    by (auto simp: call_step_def split: prod.splits)
  ultimately show "((promiseFuncs, result, akku, w2), (promiseFuncs, prevResult, akku, w))
      \<in> measure (\<lambda>(a, p, k, w). case arrays w a of None \<Rightarrow> 0 | Some xs \<Rightarrow> length xs)"
    using xs by (cases xs) auto
qed

text \<open>
  Modelled from the spec: the host's Future primitive (section 6).
  \<^verbatim>\<open>new Promise(executor)\<close> runs the executor at once on the pending promise. The
  executor is given by what it leaves: the state, the promise as its calls of
  \<^verbatim>\<open>resolve\<close> and \<^verbatim>\<open>reject\<close> made it, and the value it threw, if it threw. A throw is
  caught by the constructor and rejects the promise; the constructor itself returns.
\<close>

definition new_Promise ::
  "('st \<Rightarrow> 'st \<times> settle \<times> jsval option) \<Rightarrow> 'st \<Rightarrow> ('st \<times> settle) completion" where
  "new_Promise executor st =
     (case executor st of
        (st', p, None) \<Rightarrow> Returns (st', p)
      | (st', p, Some e) \<Rightarrow> Returns (st', reject e p))"

text \<open>
  \<^verbatim>\<open>chain\<close> (lines 134 to 153): the executor calls \<^verbatim>\<open>_chainResolveNext\<close> on
  \<^verbatim>\<open>promiseFuncs.slice()\<close>, \<^verbatim>\<open>undefined\<close> and \<^verbatim>\<open>{}\<close>. When \<^verbatim>\<open>promiseFuncs\<close> is no array,
  \<^verbatim>\<open>slice\<close> throws out of the executor. The result of \<open>chain\<close> is how the call
  completes: it returns the promise, or it throws.
\<close>

definition chain_executor :: "addr \<Rightarrow> world \<Rightarrow> world \<times> settle \<times> jsval option" where
  "chain_executor promiseFuncs w =
     (case slice promiseFuncs w of
        None \<Rightarrow> (w, Pending, Some (TypeErr ''promiseFuncs.slice is not a function''))
      | Some (w1, copy) \<Rightarrow>
          (let (w2, akku) = new_object w1;
               (w3, p) = chainResolveNext copy Undefined akku w2
           in (w3, p, None)))"

definition chain :: "addr \<Rightarrow> world \<Rightarrow> (world \<times> settle) completion" where
  "chain promiseFuncs w = new_Promise (chain_executor promiseFuncs) w"

text \<open>
  How an invocation ends once \<^verbatim>\<open>try\<close> and \<^verbatim>\<open>Promise.resolve\<close> have normalised it: a throw
  is a rejection, a promise is adopted, a plain value fulfills.
\<close>

definition outcome_of :: "jsret completion \<Rightarrow> settle" where
  "outcome_of c = (case c of Throws e \<Rightarrow> Rejected e | Returns r \<Rightarrow> Promise_resolve r)"

text \<open>
  For the proofs: the run of \<^verbatim>\<open>_chainResolveNext\<close> over the array's content as a list. It
  gives the steps left in the array, the heap, the invocations made and the state of the
  chain's promise.
\<close>

fun run_steps ::
  "step list \<Rightarrow> jsval \<Rightarrow> jsval \<Rightarrow> heap \<Rightarrow> step list \<times> heap \<times> invocation list \<times> settle" where
  "run_steps [] prev akku h = ([], h, [], Fulfilled prev)"
| "run_steps (s # ss) prev akku h =
     (let (h', c) = s prev akku h;
          e = \<lparr>i_step = s, i_prev = prev, i_akku = akku, i_result = c\<rparr>
      in case outcome_of c of
           Fulfilled v \<Rightarrow>
             (let (rest, h'', es, res) = run_steps ss v akku h' in (rest, h'', e # es, res))
         | res \<Rightarrow> (ss, h', [e], res))"

text \<open>
  What the spec says of a sequence of steps that all fulfill: the first gets the starting
  value, each later one the value the one before it fulfilled with, all get the same state
  object, each works on the heap the one before it left. \<open>thread_steps\<close> gives the last
  value and the last heap, and \<open>None\<close> when a step of the sequence does not fulfill.
\<close>

fun thread_steps :: "step list \<Rightarrow> jsval \<Rightarrow> jsval \<Rightarrow> heap \<Rightarrow> (jsval \<times> heap) option" where
  "thread_steps [] prev akku h = Some (prev, h)"
| "thread_steps (s # ss) prev akku h =
     (let (h', c) = s prev akku h
      in case outcome_of c of
           Fulfilled v \<Rightarrow> thread_steps ss v akku h'
         | _ \<Rightarrow> None)"

text \<open>
  The steps of the spec's two examples, on the arguments the chain gives them:
  \<^verbatim>\<open>() => 1\<close>, \<^verbatim>\<open>(prev, s) => { s.a = prev; return prev + 1; }\<close>,
  \<^verbatim>\<open>(prev, s) => ({ ...s, total: prev })\<close>, \<^verbatim>\<open>() => { throw new Error("x"); }\<close> and
  \<^verbatim>\<open>() => 99\<close>. \<open>set_property\<close> is the assignment \<^verbatim>\<open>o.k = v\<close> on an object's properties.
\<close>

definition set_property :: "string \<Rightarrow> jsval \<Rightarrow> object \<Rightarrow> object" where
  "set_property k v ob =
     (if k \<in> fst ` set ob then map (\<lambda>(k', v'). if k' = k then (k', v) else (k', v')) ob
      else ob @ [(k, v)])"

definition step_one :: step where
  "step_one prev s h = (h, Returns (Plain (Num 1)))"

definition step_store_a :: step where
  "step_store_a prev s h =
     (case (prev, s) of
        (Num n, Ref a) \<Rightarrow>
          (case cells h a of
             Some ob \<Rightarrow>
               (h\<lparr>cells := (cells h)(a \<mapsto> set_property ''a'' prev ob)\<rparr>,
                Returns (Plain (Num (n + 1))))
           | None \<Rightarrow> (h, Throws (TypeErr ''no object'')))
      | _ \<Rightarrow> (h, Throws (TypeErr ''not modelled'')))"

definition step_total :: step where
  "step_total prev s h =
     (case s of
        Ref a \<Rightarrow>
          (case cells h a of
             Some ob \<Rightarrow>
               (h\<lparr>cells := (cells h)(next_free h \<mapsto> set_property ''total'' prev ob),
                   next_free := Suc (next_free h)\<rparr>,
                Returns (Plain (Ref (next_free h))))
           | None \<Rightarrow> (h, Throws (TypeErr ''no object'')))
      | _ \<Rightarrow> (h, Throws (TypeErr ''not modelled'')))"

definition step_throw_x :: step where
  "step_throw_x prev s h = (h, Throws (Err ''x''))"

definition step_99 :: step where
  "step_99 prev s h = (h, Returns (Plain (Num 99)))"

text \<open>A world whose only array, at address 0, holds the given steps.\<close>

definition world_with :: "step list \<Rightarrow> world" where
  "world_with steps =
     \<lparr>arrays = (\<lambda>a. if a = 0 then Some steps else None), next_array = 1,
      objects = \<lparr>cells = (\<lambda>a. None), next_free = 0\<rparr>, invoked = []\<rparr>"

section \<open>delay, delayReject and timeout\<close>

text \<open>
  Modelled from the spec: the host's scheduler (section 6), which is not code of this
  repository. Time is in milliseconds from the call. A promise that settles through a
  timer is given by the time at which its reactions run and by what it settles with;
  \<open>Never\<close> is a promise that stays pending.
\<close>

datatype outcome = Fulfills jsval | Rejects jsval

datatype future = Never | SettlesAt nat outcome

text \<open>
  \<^verbatim>\<open>delay\<close> (lines 22 to 27) and \<^verbatim>\<open>delayReject\<close> (lines 29 to 33):
  \<^verbatim>\<open>setTimeout(resolve, ms, resolveVal)\<close> and \<^verbatim>\<open>setTimeout(reject, ms, rejectVal)\<close>.
\<close>

definition delay :: "nat \<Rightarrow> jsval \<Rightarrow> future" where
  "delay ms resolveVal = SettlesAt ms (Fulfills resolveVal)"

definition delayReject :: "nat \<Rightarrow> jsval \<Rightarrow> future" where
  "delayReject ms rejectVal = SettlesAt ms (Rejects rejectVal)"

text \<open>
  \<^verbatim>\<open>timeout\<close> (lines 35 to 46). The executor's variable \<^verbatim>\<open>done\<close>, the promise it returns,
  and a count of the calls of \<^verbatim>\<open>resolve\<close> and \<^verbatim>\<open>reject\<close> on that promise.
\<close>

record timeout_state =
  t_done :: bool
  t_promise :: settle
  t_settlements :: nat

text \<open>
  The three callbacks the executor registers: the one given to \<^verbatim>\<open>setTimeout\<close> and the two
  given to \<^verbatim>\<open>promise.then\<close>. Each is \<^verbatim>\<open>!done && (done = true) && settle(...)\<close>; the
  assignment evaluates to \<^verbatim>\<open>true\<close>, so the settling call follows it.
\<close>

datatype timeout_event = TimerFires | InputFulfills jsval | InputRejects jsval

fun timeout_callback :: "timeout_event \<Rightarrow> timeout_state \<Rightarrow> timeout_state" where
  "timeout_callback TimerFires st =
     (if \<not> t_done st
      then st\<lparr>t_done := True, t_promise := reject (Err ''Promise timed out'') (t_promise st),
              t_settlements := Suc (t_settlements st)\<rparr>
      else st)"
| "timeout_callback (InputFulfills val) st =
     (if \<not> t_done st
      then st\<lparr>t_done := True, t_promise := resolve val (t_promise st),
              t_settlements := Suc (t_settlements st)\<rparr>
      else st)"
| "timeout_callback (InputRejects err) st =
     (if \<not> t_done st
      then st\<lparr>t_done := True, t_promise := reject err (t_promise st),
              t_settlements := Suc (t_settlements st)\<rparr>
      else st)"

definition timeout_run :: "timeout_event list \<Rightarrow> timeout_state \<Rightarrow> timeout_state" where
  "timeout_run evs st = foldl (\<lambda>s ev. timeout_callback ev s) st evs"

text \<open>
  The order in which the host runs the callbacks: the timer's at \<open>ms\<close>, the input's when
  the input settles. When both fall on the same millisecond the order is the host's;
  \<open>timer_first\<close> says which way it goes.
\<close>

definition input_event :: "outcome \<Rightarrow> timeout_event" where
  "input_event oc = (case oc of Fulfills v \<Rightarrow> InputFulfills v | Rejects e \<Rightarrow> InputRejects e)"

definition timeout_events :: "nat \<Rightarrow> future \<Rightarrow> bool \<Rightarrow> timeout_event list" where
  "timeout_events ms promise timer_first =
     (case promise of
        Never \<Rightarrow> [TimerFires]
      | SettlesAt t oc \<Rightarrow>
          if ms < t \<or> (ms = t \<and> timer_first) then [TimerFires, input_event oc]
          else [input_event oc, TimerFires])"

definition timeout :: "nat \<Rightarrow> future \<Rightarrow> bool \<Rightarrow> timeout_state" where
  "timeout ms promise timer_first =
     timeout_run (timeout_events ms promise timer_first)
       \<lparr>t_done = False, t_promise = Pending, t_settlements = 0\<rparr>"

section \<open>waitFor\<close>

text \<open>
  A tester is a function of no argument with a state of its own (what it closes over); it
  returns a plain value or throws.
\<close>

type_synonym 's tester = "'s \<Rightarrow> 's \<times> jsval completion"

text \<open>\<^verbatim>\<open>typeof\<close>, for the two tests \<^verbatim>\<open>waitFor\<close> and \<^verbatim>\<open>promise\<close> make.\<close>

fun typeof :: "'f jsarg \<Rightarrow> string" where
  "typeof (Function f) = ''function''"
| "typeof (Value (Plain Undefined)) = ''undefined''"
| "typeof (Value (Plain (Bool b))) = ''boolean''"
| "typeof (Value (Plain (Num n))) = ''number''"
| "typeof (Value (Plain (Str s))) = ''string''"
| "typeof (Value v) = ''object''"

text \<open>
  The variables of the executor of \<^verbatim>\<open>waitFor\<close> (lines 48 to 71): \<^verbatim>\<open>tester\<close>, \<^verbatim>\<open>ms\<close>,
  \<^verbatim>\<open>stopped\<close>, \<^verbatim>\<open>error\<close>, \<^verbatim>\<open>value\<close>; whether the interval \<^verbatim>\<open>i\<close> is still set and whether the
  deadline's timer is still to fire; the returned promise; the tester's state and the
  number of calls \<^verbatim>\<open>tester()\<close> made.
\<close>

record 's waitFor_state =
  w_tester :: "'s tester jsarg"
  w_ms :: "'s tester jsarg"
  w_stopped :: bool
  w_error :: jsval
  w_value :: jsval
  w_interval :: bool
  w_timer :: bool
  w_promise :: settle
  w_env :: 's
  w_calls :: nat

text \<open>\<^verbatim>\<open>tester()\<close>: calling what is no function throws a TypeError.\<close>

definition call_tester :: "'s tester jsarg \<Rightarrow> 's \<Rightarrow> 's \<times> jsval completion" where
  "call_tester t s =
     (case t of
        Function f \<Rightarrow> f s
      | Value v \<Rightarrow> (s, Throws (TypeErr ''tester is not a function'')))"

text \<open>
  The function given to \<^verbatim>\<open>setInterval\<close> (lines 58 to 66):
  \<^verbatim>\<open>if (stopped) { clearInterval(i); return; }\<close>, then
  \<^verbatim>\<open>try { value = tester(); } catch (e) { error = e; }\<close>, then
  \<^verbatim>\<open>if (value || error) { stopped = true; clearInterval(i); error ? reject(error) : resolve(value); }\<close>.
\<close>

definition poll :: "'s waitFor_state \<Rightarrow> 's waitFor_state" where
  "poll st =
     (if w_stopped st then st\<lparr>w_interval := False\<rparr>
      else
        let (s', c) = call_tester (w_tester st) (w_env st);
            st1 = st\<lparr>w_env := s', w_calls := Suc (w_calls st)\<rparr>;
            st2 = (case c of
                     Returns v \<Rightarrow> st1\<lparr>w_value := v\<rparr>
                   | Throws e \<Rightarrow> st1\<lparr>w_error := e\<rparr>)
        in if truthy (w_value st2) \<or> truthy (w_error st2)
           then st2\<lparr>w_stopped := True, w_interval := False,
                    w_promise :=
                      (if truthy (w_error st2) then reject (w_error st2) (w_promise st2)
                       else resolve (w_value st2) (w_promise st2))\<rparr>
           else st2)"

text \<open>The function given to \<^verbatim>\<open>setTimeout\<close> (line 68): \<^verbatim>\<open>error = new Error('timeout')\<close>.\<close>

definition on_deadline :: "'s waitFor_state \<Rightarrow> 's waitFor_state" where
  "on_deadline st = st\<lparr>w_error := Err ''timeout''\<rparr>"

text \<open>
  \<^verbatim>\<open>waitFor\<close>: the state when the call returns. \<^verbatim>\<open>waitFor(tester)\<close> is the call with
  \<^verbatim>\<open>undefined\<close> for the second parameter.
\<close>

definition waitFor :: "'s tester jsarg \<Rightarrow> 's tester jsarg \<Rightarrow> 's \<Rightarrow> 's waitFor_state" where
  "waitFor ms0 tester0 s =
     (let (tester, ms) =
            (if typeof ms0 = ''function'' then (ms0, Value (Plain Undefined)) else (tester0, ms0))
      in \<lparr>w_tester = tester, w_ms = ms, w_stopped = False, w_error = Null, w_value = Undefined,
          w_interval = True, w_timer = (typeof ms = ''number''), w_promise = Pending,
          w_env = s, w_calls = 0\<rparr>)"

text \<open>
  Modelled from the spec: the host's scheduler (section 6). A tick of the interval runs
  \<open>poll\<close> while the interval is set; the deadline's timer runs its function once.
\<close>

datatype timer_event = Tick | Deadline

fun fire :: "timer_event \<Rightarrow> 's waitFor_state \<Rightarrow> 's waitFor_state" where
  "fire Tick st = (if w_interval st then poll st else st)"
| "fire Deadline st = (if w_timer st then on_deadline (st\<lparr>w_timer := False\<rparr>) else st)"

definition run :: "timer_event list \<Rightarrow> 's waitFor_state \<Rightarrow> 's waitFor_state" where
  "run evs st = foldl (\<lambda>s ev. fire ev s) st evs"

text \<open>
  The events of the first \<open>n\<close> ticks, in the order of their times: tick \<open>k\<close> is due at
  \<open>10 * k\<close> milliseconds, the deadline at \<open>ms\<close>. \<open>deadline_first\<close> is the host's order
  when the two are due in the same millisecond; \<open>k\<close> counts the ticks already past.
\<close>

fun timeline :: "int option \<Rightarrow> bool \<Rightarrow> nat \<Rightarrow> nat \<Rightarrow> timer_event list" where
  "timeline d deadline_first k 0 = []"
| "timeline d deadline_first k (Suc n) =
     (case d of
        None \<Rightarrow> Tick # timeline None deadline_first (Suc k) n
      | Some ms \<Rightarrow>
          if ms < 10 * int (Suc k) \<or> (ms = 10 * int (Suc k) \<and> deadline_first)
          then Deadline # Tick # timeline None deadline_first (Suc k) n
          else Tick # timeline (Some ms) deadline_first (Suc k) n)"

definition deadline_of :: "'f jsarg \<Rightarrow> int option" where
  "deadline_of ms = (case ms of Value (Plain (Num d)) \<Rightarrow> Some d | _ \<Rightarrow> None)"

text \<open>The state of a call of \<^verbatim>\<open>waitFor\<close> after the first \<open>n\<close> ticks of its interval.\<close>

definition waitFor_after ::
  "nat \<Rightarrow> bool \<Rightarrow> 's tester jsarg \<Rightarrow> 's tester jsarg \<Rightarrow> 's \<Rightarrow> 's waitFor_state" where
  "waitFor_after n deadline_first ms0 tester0 s =
     (let st = waitFor ms0 tester0 s
      in run (timeline (deadline_of (w_ms st)) deadline_first 0 n) st)"

text \<open>
  Testers of the examples. \<^verbatim>\<open>() => { throw null }\<close>; a tester that returns \<^verbatim>\<open>false\<close> but
  throws \<^verbatim>\<open>null\<close> at its second call; one that returns \<^verbatim>\<open>0\<close> but throws \<^verbatim>\<open>undefined\<close> at its
  third call, and one that throws \<^verbatim>\<open>new Error("boom")\<close> there; \<^verbatim>\<open>() => false\<close>; and the
  spec's tester that returns \<^verbatim>\<open>false\<close> twice, then \<^verbatim>\<open>42\<close>. The counting testers keep the
  number of calls made so far as their state.
\<close>

definition tester_throws_null :: "unit tester" where
  "tester_throws_null u = (u, Throws Null)"

definition tester_null_at_second :: "nat tester" where
  "tester_null_at_second k = (Suc k, if k = 1 then Throws Null else Returns (Bool False))"

definition tester_undefined_at_third :: "nat tester" where
  "tester_undefined_at_third k = (Suc k, if k = 2 then Throws Undefined else Returns (Num 0))"

definition tester_boom_at_third :: "nat tester" where
  "tester_boom_at_third k = (Suc k, if k = 2 then Throws (Err ''boom'') else Returns (Num 0))"

definition tester_false :: "unit tester" where
  "tester_false u = (u, Returns (Bool False))"

definition tester_42_at_third :: "nat tester" where
  "tester_42_at_third k = (Suc k, if k < 2 then Returns (Bool False) else Returns (Num 42))"

section \<open>finally\<close>

text \<open>
  Modelled from the spec: the host's Future primitive (section 6). \<^verbatim>\<open>p.then(f)\<close> and
  \<^verbatim>\<open>p.catch(f)\<close> for a handler that works on a state: the handler runs when \<open>p\<close> settles
  the matching way, and the new promise fulfills with what the handler returns or rejects
  with what it throws; the other settlement is passed on.
\<close>

definition then_do ::
  "'st \<times> settle \<Rightarrow> (jsval \<Rightarrow> 'st \<Rightarrow> 'st \<times> jsval completion) \<Rightarrow> 'st \<times> settle" where
  "then_do sp onFulfilled =
     (case sp of
        (st, Fulfilled v) \<Rightarrow>
          (case onFulfilled v st of
             (st1, Returns r) \<Rightarrow> (st1, Fulfilled r)
           | (st1, Throws e) \<Rightarrow> (st1, Rejected e))
      | _ \<Rightarrow> sp)"

definition catch_do ::
  "'st \<times> settle \<Rightarrow> (jsval \<Rightarrow> 'st \<Rightarrow> 'st \<times> jsval completion) \<Rightarrow> 'st \<times> settle" where
  "catch_do sp onRejected =
     (case sp of
        (st, Rejected err) \<Rightarrow>
          (case onRejected err st of
             (st1, Returns r) \<Rightarrow> (st1, Fulfilled r)
           | (st1, Throws e) \<Rightarrow> (st1, Rejected e))
      | _ \<Rightarrow> sp)"

text \<open>
  The state \<^verbatim>\<open>promise_finally\<close> works on: the state of \<^verbatim>\<open>finallyFn\<close>, the number of times it
  was invoked, and what \<^verbatim>\<open>console.error\<close> printed.
\<close>

record 's finally_state =
  f_env :: 's
  f_calls :: nat
  f_console :: "jsval list"

text \<open>
  \<^verbatim>\<open>err.stack\<close>: reading a property of \<^verbatim>\<open>undefined\<close> or \<^verbatim>\<open>null\<close> throws a TypeError; an
  error has its stack text, any other value of this model has no such property.
\<close>

fun get_stack :: "jsval \<Rightarrow> jsval completion" where
  "get_stack Undefined = Throws (TypeErr ''Cannot read properties of undefined'')"
| "get_stack Null = Throws (TypeErr ''Cannot read properties of null'')"
| "get_stack (Err m) = Returns (Str (''Error: '' @ m))"
| "get_stack (TypeErr m) = Returns (Str (''TypeError: '' @ m))"
| "get_stack v = Returns Undefined"

text \<open>
  \<^verbatim>\<open>"Error in promise finally: " + err.stack || err\<close>, which JavaScript reads as
  \<^verbatim>\<open>("Error in promise finally: " + err.stack) || err\<close>.
\<close>

definition finally_message :: "jsval \<Rightarrow> jsval \<Rightarrow> jsval" where
  "finally_message stack err =
     (let s = Str (''Error in promise finally: '' @
                   (case stack of Str t \<Rightarrow> t | _ \<Rightarrow> ''undefined''))
      in if truthy s then s else err)"

text \<open>
  \<^verbatim>\<open>try { finallyFn(); } catch(err) { console.error(...); }\<close>, the statement both handlers
  start with. \<open>Some e\<close> says that the statement throws \<open>e\<close>, which is what its
  \<^verbatim>\<open>catch\<close> block does when \<^verbatim>\<open>err.stack\<close> throws.
\<close>

definition try_finallyFn ::
  "('s \<Rightarrow> 's \<times> jsval completion) \<Rightarrow> 's finally_state \<Rightarrow> 's finally_state \<times> jsval option" where
  "try_finallyFn finallyFn st =
     (let (s', c) = finallyFn (f_env st);
          st1 = st\<lparr>f_env := s', f_calls := Suc (f_calls st)\<rparr>
      in case c of
           Returns v \<Rightarrow> (st1, None)
         | Throws err \<Rightarrow>
             (case get_stack err of
                Throws e \<Rightarrow> (st1, Some e)
              | Returns stack \<Rightarrow>
                  (st1\<lparr>f_console := f_console st1 @ [finally_message stack err]\<rparr>, None)))"

text \<open>The two handlers of lines 157 and 158: \<^verbatim>\<open>return result\<close> and \<^verbatim>\<open>throw err\<close>.\<close>

definition finally_onFulfilled ::
  "('s \<Rightarrow> 's \<times> jsval completion) \<Rightarrow> jsval \<Rightarrow> 's finally_state \<Rightarrow> 's finally_state \<times> jsval completion" where
  "finally_onFulfilled finallyFn result st =
     (case try_finallyFn finallyFn st of
        (st1, Some e) \<Rightarrow> (st1, Throws e)
      | (st1, None) \<Rightarrow> (st1, Returns result))"

definition finally_onRejected ::
  "('s \<Rightarrow> 's \<times> jsval completion) \<Rightarrow> jsval \<Rightarrow> 's finally_state \<Rightarrow> 's finally_state \<times> jsval completion" where
  "finally_onRejected finallyFn err st =
     (case try_finallyFn finallyFn st of
        (st1, Some e) \<Rightarrow> (st1, Throws e)
      | (st1, None) \<Rightarrow> (st1, Throws err))"

text \<open>\<^verbatim>\<open>promise_finally\<close> (lines 155 to 159).\<close>

definition promise_finally ::
  "jsret \<Rightarrow> ('s \<Rightarrow> 's \<times> jsval completion) \<Rightarrow> 's finally_state \<Rightarrow> 's finally_state \<times> settle" where
  "promise_finally promise finallyFn st =
     catch_do
       (then_do (st, Promise_resolve promise) (finally_onFulfilled finallyFn))
       (finally_onRejected finallyFn)"

text \<open>The cleanup function \<^verbatim>\<open>() => { throw null }\<close>.\<close>

definition cleanup_throws_null :: "unit \<Rightarrow> unit \<times> jsval completion" where
  "cleanup_throws_null u = (u, Throws Null)"

section \<open>convertCallbackFun, convertCallbackFunWithManyArgs and promise\<close>

text \<open>
  An element of the array \<^verbatim>\<open>args\<close>: an argument of the caller, or the completion function
  the promise generator pushes. A callback-style function is given by what it does when
  applied to a \<^verbatim>\<open>this\<close> and an argument array, in the order of time: it calls the completion
  function with a list of plain values, at once or later, and it may throw out of the
  application. What it returns is not used.
\<close>

datatype arg = Arg jsval | Callback

datatype action = CallsBack "jsval list" | ThrowsSync jsval

type_synonym func = "jsval \<Rightarrow> arg list \<Rightarrow> action list"

text \<open>The trace of the applications: the function, its \<^verbatim>\<open>this\<close> and its arguments.\<close>

type_synonym applications = "(func \<times> jsval \<times> arg list) list"

text \<open>A parameter of a function called with the list \<open>arguments\<close>: \<^verbatim>\<open>undefined\<close> when not passed.\<close>

definition param :: "jsval list \<Rightarrow> nat \<Rightarrow> jsval" where
  "param arguments n = (if n < length arguments then arguments ! n else Undefined)"

text \<open>
  The completion function of \<^verbatim>\<open>convertCallbackFun\<close> (line 100),
  \<^verbatim>\<open>function(err, result) { return err ? reject(err) : resolve(result); }\<close>, and the one of
  \<^verbatim>\<open>convertCallbackFunWithManyArgs\<close> (lines 112 to 116), which shifts \<^verbatim>\<open>err\<close> off
  \<^verbatim>\<open>Array.from(arguments)\<close> and resolves with the rest. Both act on the promise of the call.
\<close>

definition completion_one :: "jsval list \<Rightarrow> settle \<Rightarrow> settle" where
  "completion_one arguments p =
     (let err = param arguments 0; result = param arguments 1
      in if truthy err then reject err p else resolve result p)"

definition completion_many :: "jsval list \<Rightarrow> settle \<Rightarrow> settle" where
  "completion_many arguments p =
     (let (err, args) = (case arguments of [] \<Rightarrow> (Undefined, []) | x # xs \<Rightarrow> (x, xs))
      in if truthy err then reject err p else resolve (Arr args) p)"

text \<open>
  The executor of the promise generator: \<^verbatim>\<open>func.apply(self, args)\<close> runs with the completion
  function as its last argument. A throw out of the application is a throw out of the
  executor, which rejects the promise if it is still pending.
\<close>

definition apply_func ::
  "(jsval list \<Rightarrow> settle \<Rightarrow> settle) \<Rightarrow> func \<Rightarrow> jsval \<Rightarrow> arg list \<Rightarrow> settle" where
  "apply_func completion func self args =
     foldl (\<lambda>p a. case a of CallsBack xs \<Rightarrow> completion xs p | ThrowsSync e \<Rightarrow> reject e p)
       Pending (func self args)"

text \<open>
  \<^verbatim>\<open>promiseGenerator\<close>, the function \<^verbatim>\<open>convertCallbackFun\<close> returns (lines 97 to 103, and
  lines 44 to 50 of the older copy of the module, which differs in notation only):
  \<^verbatim>\<open>args = Array.from(arguments)\<close>, \<^verbatim>\<open>self = this\<close>, and in the executor the push of the
  completion function and the application.
\<close>

definition promiseGenerator ::
  "func \<Rightarrow> jsval \<Rightarrow> jsval list \<Rightarrow> applications \<Rightarrow> applications \<times> settle" where
  "promiseGenerator func self arguments tr =
     (let args = map Arg arguments @ [Callback]
      in (tr @ [(func, self, args)], apply_func completion_one func self args))"

definition promiseGeneratorManyArgs ::
  "func \<Rightarrow> jsval \<Rightarrow> jsval list \<Rightarrow> applications \<Rightarrow> applications \<times> settle" where
  "promiseGeneratorManyArgs func self arguments tr =
     (let args = map Arg arguments @ [Callback]
      in (tr @ [(func, self, args)], apply_func completion_many func self args))"

text \<open>
  \<^verbatim>\<open>convertCallbackFun\<close> (lines 84 to 104) and \<^verbatim>\<open>convertCallbackFunWithManyArgs\<close>
  (lines 106 to 120) return the generator as a closure over \<^verbatim>\<open>func\<close>, and do nothing else.
\<close>

type_synonym adapted = "jsval \<Rightarrow> jsval list \<Rightarrow> applications \<Rightarrow> applications \<times> settle"

definition convertCallbackFun :: "func \<Rightarrow> applications \<Rightarrow> applications \<times> adapted" where
  "convertCallbackFun func tr = (tr, promiseGenerator func)"

definition convertCallbackFunWithManyArgs :: "func \<Rightarrow> applications \<Rightarrow> applications \<times> adapted" where
  "convertCallbackFunWithManyArgs func tr = (tr, promiseGeneratorManyArgs func)"

text \<open>
  \<^verbatim>\<open>promise\<close> (lines 7 to 19): \<^verbatim>\<open>typeof obj === "function"\<close>, which holds for the values
  \<open>Function f\<close> and for no other, chooses between \<^verbatim>\<open>convertCallbackFun(obj)\<close> and
  \<^verbatim>\<open>Promise.resolve(obj)\<close>. The result is a function (\<open>Inl\<close>) or a promise (\<open>Inr\<close>).
\<close>

definition promise :: "func jsarg \<Rightarrow> applications \<Rightarrow> applications \<times> (adapted + settle)" where
  "promise obj tr =
     (case obj of
        Function f \<Rightarrow> (let (tr', g) = convertCallbackFun f tr in (tr', Inl g))
      | Value v \<Rightarrow> (tr, Inr (Promise_resolve v)))"

text \<open>
  The callback-style functions of the spec's examples: \<^verbatim>\<open>fn(a, cb)\<close> that calls
  \<^verbatim>\<open>cb(null, a * 2)\<close>, one that calls \<^verbatim>\<open>cb(new Error("bad"))\<close>, and one that calls
  \<^verbatim>\<open>cb(null, 1, 2, 3)\<close>.
\<close>

definition fn_double :: func where
  "fn_double self args =
     (case args of [Arg (Num a), Callback] \<Rightarrow> [CallsBack [Null, Num (a * 2)]] | _ \<Rightarrow> [])"

definition fn_bad :: func where
  "fn_bad self args = [CallsBack [Err ''bad'']]"

definition fn_123 :: func where
  "fn_123 self args = [CallsBack [Null, Num 1, Num 2, Num 3]]"

text \<open>
  A function that is not callback-style, such as \<^verbatim>\<open>function(a, b) { return a + b; }\<close>: it
  makes no use of a completion function and does not throw.
\<close>

definition fn_silent :: func where
  "fn_silent self args = []"

section \<open>Properties\<close>

subsection \<open>chain\<close>

text \<open>
  The equation of \<open>chainResolveNext\<close> unfolds without end as a rewrite rule; the proofs
  unfold it one call at a time.
\<close>

declare chainResolveNext.simps [simp del]

text \<open>
  On an array holding \<open>steps\<close>, \<open>chainResolveNext\<close> is the run of the list: the array
  ends with the steps not taken, the trace grows by the invocations made.
\<close>

lemma chainResolveNext_run_steps:
  "arrays w a = Some steps \<Longrightarrow>
   chainResolveNext a prev akku w =
     (case run_steps steps prev akku (objects w) of
        (rest, h, es, res) \<Rightarrow>
          (w\<lparr>arrays := (arrays w)(a \<mapsto> rest), objects := h, invoked := invoked w @ es\<rparr>, res))"
proof (induction steps arbitrary: w prev)
  case Nil
  then have "(arrays w)(a \<mapsto> []) = arrays w" by (simp add: fun_upd_idem)
  with Nil show ?case
    by (subst chainResolveNext.simps) (simp add: shift_def)
next
  case (Cons s ss)
  obtain h' c where sc: "s prev akku (objects w) = (h', c)" by (cases "s prev akku (objects w)")
  let ?e = "\<lparr>i_step = s, i_prev = prev, i_akku = akku, i_result = c\<rparr>"
  let ?w1 = "w\<lparr>arrays := (arrays w)(a \<mapsto> ss)\<rparr>"
  let ?w2 = "?w1\<lparr>objects := h', invoked := invoked w @ [?e]\<rparr>"
  have sh: "shift a w = (?w1, Some s)" using Cons.prems by (simp add: shift_def)
  have cs: "call_step s prev akku ?w1 = (?w2, c)" using sc by (simp add: call_step_def)
  have a2: "arrays ?w2 a = Some ss" by simp
  show ?case
  proof (cases "outcome_of c")
    case Pending
    then show ?thesis using sh cs sc
      by (subst chainResolveNext.simps)
         (auto simp: outcome_of_def split: completion.splits settle.splits)
  next
    case (Rejected e)
    then show ?thesis using sh cs sc
      by (subst chainResolveNext.simps)
         (auto simp: outcome_of_def split: completion.splits settle.splits)
  next
    case (Fulfilled v)
    then obtain r where r: "c = Returns r" "Promise_resolve r = Fulfilled v"
      by (auto simp: outcome_of_def split: completion.splits)
    have "chainResolveNext a prev akku w = chainResolveNext a v akku ?w2"
      using sh cs r by (subst chainResolveNext.simps) simp
    also have "\<dots> = (case run_steps ss v akku (objects ?w2) of
        (rest, h, es, res) \<Rightarrow>
          (?w2\<lparr>arrays := (arrays ?w2)(a \<mapsto> rest), objects := h, invoked := invoked ?w2 @ es\<rparr>,
           res))"
      by (rule Cons.IH [OF a2])
    also have "\<dots> = (case run_steps (s # ss) prev akku (objects w) of
        (rest, h, es, res) \<Rightarrow>
          (w\<lparr>arrays := (arrays w)(a \<mapsto> rest), objects := h, invoked := invoked w @ es\<rparr>, res))"
      using sc Fulfilled by (simp split: prod.splits)
    finally show ?thesis .
  qed
qed

text \<open>
  The invocations of a run: they are the first steps of the list in the list's order; all
  get the same state object; the first gets the starting value, each later one the value
  the one before it fulfilled with, and only the last one made can fail to fulfill; the
  promise ends as the last invocation did, and fulfills only when every step was taken.
\<close>

lemma run_steps_order:
  "run_steps steps prev akku h = (rest, h', es, res) \<Longrightarrow>
   map i_step es = take (length es) steps \<and> rest = drop (length es) steps
   \<and> length es \<le> length steps \<and> (es = [] \<longleftrightarrow> steps = [])"
proof (induction steps arbitrary: prev h rest h' es res)
  case Nil
  then show ?case by simp
next
  case (Cons s ss)
  obtain h1 c where sc: "s prev akku h = (h1, c)" by (cases "s prev akku h")
  show ?case
  proof (cases "outcome_of c")
    case (Fulfilled v)
    obtain r1 h2 es1 res1 where rs: "run_steps ss v akku h1 = (r1, h2, es1, res1)"
      by (cases "run_steps ss v akku h1")
    from Cons.IH [OF rs] Cons.prems sc Fulfilled rs show ?thesis by auto
  qed (use Cons.prems sc in auto)
qed

lemma run_steps_args:
  "run_steps steps prev akku h = (rest, h', es, res) \<Longrightarrow>
   (\<forall>e \<in> set es. i_akku e = akku) \<and>
   (es \<noteq> [] \<longrightarrow> i_prev (hd es) = prev) \<and>
   map (\<lambda>e. outcome_of (i_result e)) (butlast es) = map (\<lambda>e. Fulfilled (i_prev e)) (tl es)"
proof (induction steps arbitrary: prev h rest h' es res)
  case Nil
  then show ?case by simp
next
  case (Cons s ss)
  obtain h1 c where sc: "s prev akku h = (h1, c)" by (cases "s prev akku h")
  show ?case
  proof (cases "outcome_of c")
    case (Fulfilled v)
    obtain r1 h2 es1 res1 where rs: "run_steps ss v akku h1 = (r1, h2, es1, res1)"
      by (cases "run_steps ss v akku h1")
    from Cons.IH [OF rs] Cons.prems sc Fulfilled rs show ?thesis
      by (cases es1) auto
  qed (use Cons.prems sc in auto)
qed

lemma run_steps_result:
  "run_steps steps prev akku h = (rest, h', es, res) \<Longrightarrow>
   res = (if es = [] then Fulfilled prev else outcome_of (i_result (last es))) \<and>
   ((\<exists>v. res = Fulfilled v) \<longrightarrow> length es = length steps)"
proof (induction steps arbitrary: prev h rest h' es res)
  case Nil
  then show ?case by simp
next
  case (Cons s ss)
  obtain h1 c where sc: "s prev akku h = (h1, c)" by (cases "s prev akku h")
  show ?case
  proof (cases "outcome_of c")
    case (Fulfilled v)
    obtain r1 h2 es1 res1 where rs: "run_steps ss v akku h1 = (r1, h2, es1, res1)"
      by (cases "run_steps ss v akku h1")
    from Cons.IH [OF rs] Cons.prems sc Fulfilled rs show ?thesis
      by (cases es1) auto
  qed (use Cons.prems sc in auto)
qed

lemma run_steps_first:
  "run_steps (s # ss) prev akku h = (rest, h', es, res) \<Longrightarrow>
   i_result (hd es) = snd (s prev akku h)"
  by (auto simp: Let_def split: prod.splits settle.splits)

text \<open>
  \<open>chain\<close> on a caller's array: the copy is the array at \<open>next_array w\<close>, the state
  object the empty object at the heap's next free address.
\<close>

lemma chain_run_steps:
  assumes "arrays w promiseFuncs = Some steps" and "promiseFuncs < next_array w"
  shows "chain promiseFuncs w =
     (let a = next_free (objects w);
          h0 = (objects w)\<lparr>cells := (cells (objects w))(a \<mapsto> []), next_free := Suc a\<rparr>
      in case run_steps steps Undefined (Ref a) h0 of
        (rest, h, es, res) \<Rightarrow>
          Returns (w\<lparr>arrays := (arrays w)(next_array w \<mapsto> rest), next_array := Suc (next_array w),
             objects := h, invoked := invoked w @ es\<rparr>, res))"
proof -
  let ?a = "next_free (objects w)"
  let ?h0 = "(objects w)\<lparr>cells := (cells (objects w))(?a \<mapsto> []), next_free := Suc ?a\<rparr>"
  let ?w1 = "w\<lparr>arrays := (arrays w)(next_array w \<mapsto> steps), next_array := Suc (next_array w)\<rparr>"
  let ?w2 = "?w1\<lparr>objects := ?h0\<rparr>"
  have sl: "slice promiseFuncs w = Some (?w1, next_array w)"
    using assms(1) by (simp add: slice_def)
  have no: "new_object ?w1 = (?w2, Ref ?a)"
    by (simp add: new_object_def Let_def)
  have ar: "arrays ?w2 (next_array w) = Some steps" by simp
  have "chain promiseFuncs w =
      (case chainResolveNext (next_array w) Undefined (Ref ?a) ?w2 of (w3, p) \<Rightarrow> Returns (w3, p))"
    using sl no by (simp add: chain_def chain_executor_def new_Promise_def split: prod.splits)
  also note chainResolveNext_run_steps [OF ar]
  finally show ?thesis
    by (simp add: Let_def split: prod.splits)
qed

text \<open>
  Claim C1. For every list of steps, \<open>chain\<close> works on a copy of the list and on a new
  empty state object; it invokes the steps from left to right, the first with
  \<^verbatim>\<open>undefined\<close>, each later one with the value the normalised result of the step before
  it fulfilled with, all with the same state object; when no step is left it fulfills the
  promise it returned with the last result; the caller's array is as it was.

  In the theorem, \<open>es\<close> are the invocations the call adds to the trace. The caller's
  array holds what it held, and the copy, the array at \<open>next_array w\<close>, the steps not
  taken. The steps of \<open>es\<close> are
  the first \<open>length es\<close> steps of the caller's list, in order; their state argument is
  the reference to the new object; the first one got \<^verbatim>\<open>undefined\<close> and ran on the heap
  in which the new object is empty; the outcomes of all but the last are the fulfillments
  with the previous-result arguments of their successors; the promise ends as the last
  invocation did (fulfilled with \<^verbatim>\<open>undefined\<close> when the list is empty), and it is
  fulfilled only when every step of the list was invoked.
\<close>

theorem chain_runs_steps_in_order:
  assumes "arrays w promiseFuncs = Some steps" and "promiseFuncs < next_array w"
  shows "\<exists>w' es res.
      chain promiseFuncs w = Returns (w', res) \<and> invoked w' = invoked w @ es
    \<and> arrays w' promiseFuncs = Some steps
    \<and> arrays w' (next_array w) = Some (drop (length es) steps)
    \<and> map i_step es = take (length es) steps
    \<and> (es = [] \<longleftrightarrow> steps = [])
    \<and> (\<forall>e \<in> set es. i_akku e = Ref (next_free (objects w)))
    \<and> (es \<noteq> [] \<longrightarrow> i_prev (hd es) = Undefined
          \<and> i_result (hd es) =
              snd (hd steps Undefined (Ref (next_free (objects w)))
                ((objects w)\<lparr>cells := (cells (objects w))(next_free (objects w) \<mapsto> []),
                            next_free := Suc (next_free (objects w))\<rparr>)))
    \<and> map (\<lambda>e. outcome_of (i_result e)) (butlast es) = map (\<lambda>e. Fulfilled (i_prev e)) (tl es)
    \<and> res = (if es = [] then Fulfilled Undefined else outcome_of (i_result (last es)))
    \<and> ((\<exists>v. res = Fulfilled v) \<longrightarrow> length es = length steps)"
proof -
  let ?a = "next_free (objects w)"
  let ?h0 = "(objects w)\<lparr>cells := (cells (objects w))(?a \<mapsto> []), next_free := Suc ?a\<rparr>"
  obtain rest h es res where rs: "run_steps steps Undefined (Ref ?a) ?h0 = (rest, h, es, res)"
    by (cases "run_steps steps Undefined (Ref ?a) ?h0")
  let ?w' = "w\<lparr>arrays := (arrays w)(next_array w \<mapsto> rest), next_array := Suc (next_array w),
             objects := h, invoked := invoked w @ es\<rparr>"
  have ch: "chain promiseFuncs w = Returns (?w', res)"
    using chain_run_steps [OF assms] rs by (simp add: Let_def)
  have keep: "arrays ?w' promiseFuncs = Some steps"
    using assms by simp
  have copy: "arrays ?w' (next_array w) = Some (drop (length es) steps)"
    using run_steps_order [OF rs] by simp
  have first: "es \<noteq> [] \<longrightarrow> i_result (hd es) = snd (hd steps Undefined (Ref ?a) ?h0)"
  proof (cases steps)
    case Nil
    with run_steps_order [OF rs] show ?thesis by simp
  next
    case (Cons s ss)
    with run_steps_first [of s ss] rs show ?thesis by simp
  qed
  from ch keep copy first run_steps_order [OF rs] run_steps_args [OF rs] run_steps_result [OF rs]
  show ?thesis by (intro exI [of _ ?w'] exI [of _ es] exI [of _ res]) simp
qed

theorem chain_runs_steps_in_order_witness:
  "arrays (world_with [step_one, step_store_a, step_total]) 0
     = Some [step_one, step_store_a, step_total]
   \<and> 0 < next_array (world_with [step_one, step_store_a, step_total])
   \<and> (\<exists>w' es. chain 0 (world_with [step_one, step_store_a, step_total])
           = Returns (w', Fulfilled (Ref 1))
         \<and> invoked w' = es
         \<and> map i_step es = [step_one, step_store_a, step_total]
         \<and> map i_prev es = [Undefined, Num 1, Num 2]
         \<and> map i_akku es = [Ref 0, Ref 0, Ref 0]
         \<and> cells (objects w') 1 = Some [(''a'', Num 1), (''total'', Num 2)]
         \<and> arrays w' 0 = Some [step_one, step_store_a, step_total])"
  using chain_runs_steps_in_order [of "world_with [step_one, step_store_a, step_total]" 0
      "[step_one, step_store_a, step_total]"]
  by (simp add: chain_run_steps world_with_def step_one_def step_store_a_def step_total_def
      outcome_of_def Promise_resolve_def set_property_def Let_def)

text \<open>
  A run whose first steps \<open>pre\<close> all fulfill and whose next step \<open>s\<close> does not: the
  invocations are those of \<open>pre\<close> and of \<open>s\<close>, the steps after \<open>s\<close> stay in the array,
  the heap is as \<open>s\<close> left it, and the promise ends as the invocation of \<open>s\<close> did.
\<close>

lemma run_steps_failure:
  assumes "thread_steps pre prev akku h = Some (v, h1)" and "s v akku h1 = (h2, c)"
    and "outcome_of c = res" and "\<forall>x. res \<noteq> Fulfilled x"
  shows "\<exists>es. run_steps (pre @ s # post) prev akku h = (post, h2, es, res)
    \<and> map i_step es = pre @ [s]
    \<and> last es = \<lparr>i_step = s, i_prev = v, i_akku = akku, i_result = c\<rparr>"
  using assms(1)
proof (induction pre arbitrary: prev h)
  case Nil
  then have "prev = v" "h = h1" by simp_all
  with assms(2,3,4) show ?case
    by (cases res) (simp_all add: Let_def)
next
  case (Cons t ts)
  obtain h' d where td: "t prev akku h = (h', d)" by (cases "t prev akku h")
  with Cons.prems obtain x where x: "outcome_of d = Fulfilled x"
      and th: "thread_steps ts x akku h' = Some (v, h1)"
    by (auto simp: Let_def split: settle.splits)
  from Cons.IH [OF th] obtain es where
    es: "run_steps (ts @ s # post) x akku h' = (post, h2, es, res)"
      "map i_step es = ts @ [s]"
      "last es = \<lparr>i_step = s, i_prev = v, i_akku = akku, i_result = c\<rparr>"
    by blast
  then have "es \<noteq> []" by auto
  with es td x show ?case
    by (intro exI [of _ "\<lparr>i_step = t, i_prev = prev, i_akku = akku, i_result = d\<rparr> # es"])
       (simp add: Let_def)
qed

text \<open>
  Claim C2. For every list of steps, if a step throws \<open>err\<close> or returns a promise that
  rejects with \<open>err\<close>, the promise \<open>chain\<close> returned rejects with \<open>err\<close> and no step
  after the failing one is invoked; the call of \<open>chain\<close> never throws.

  In the theorem the caller's list is \<open>pre @ s # post\<close>: the steps of \<open>pre\<close>, run one
  after the other from \<^verbatim>\<open>undefined\<close> on the new state object, all fulfill, with \<open>v\<close>
  the last value and \<open>h1\<close> the heap they leave, and \<open>s\<close> on \<open>v\<close> and \<open>h1\<close> throws
  \<open>err\<close> or returns a promise that rejects with \<open>err\<close>. Then the call returns a promise
  that is rejected with \<open>err\<close>; the invocations made are those of \<open>pre\<close> and the one of
  \<open>s\<close>, which is the last; the heap is as \<open>s\<close> left it and the steps of \<open>post\<close> are
  still in the copy; the caller's array is as it was. The last conjunct holds for every
  argument, an array or not: the call of \<open>chain\<close> does not throw.
\<close>

theorem chain_stops_at_first_failure:
  assumes "arrays w promiseFuncs = Some (pre @ s # post)" and "promiseFuncs < next_array w"
    and "a = next_free (objects w)"
    and "thread_steps pre Undefined (Ref a)
           ((objects w)\<lparr>cells := (cells (objects w))(a \<mapsto> []), next_free := Suc a\<rparr>)
         = Some (v, h1)"
    and "s v (Ref a) h1 = (h2, c)"
    and "c = Throws err \<or> c = Returns (Thenable (Rejected err))"
  shows "\<exists>w' es.
      chain promiseFuncs w = Returns (w', Rejected err)
    \<and> invoked w' = invoked w @ es
    \<and> map i_step es = pre @ [s]
    \<and> last es = \<lparr>i_step = s, i_prev = v, i_akku = Ref a, i_result = c\<rparr>
    \<and> objects w' = h2
    \<and> arrays w' (next_array w) = Some post
    \<and> arrays w' promiseFuncs = Some (pre @ s # post)
    \<and> (\<forall>b u e. chain b u \<noteq> Throws e)"
proof -
  let ?h0 = "(objects w)\<lparr>cells := (cells (objects w))(a \<mapsto> []), next_free := Suc a\<rparr>"
  have out: "outcome_of c = Rejected err"
    using assms(6) by (auto simp: outcome_of_def Promise_resolve_def)
  from run_steps_failure [of pre Undefined "Ref a" ?h0 v h1 s h2 c "Rejected err" post]
    assms(4,5) out
  obtain es where
    es: "run_steps (pre @ s # post) Undefined (Ref a) ?h0 = (post, h2, es, Rejected err)"
      "map i_step es = pre @ [s]"
      "last es = \<lparr>i_step = s, i_prev = v, i_akku = Ref a, i_result = c\<rparr>"
    by auto
  let ?w' = "w\<lparr>arrays := (arrays w)(next_array w \<mapsto> post), next_array := Suc (next_array w),
             objects := h2, invoked := invoked w @ es\<rparr>"
  have ch: "chain promiseFuncs w = Returns (?w', Rejected err)"
    using chain_run_steps [OF assms(1,2)] es(1) assms(3) by (simp add: Let_def)
  have never: "\<forall>b u e. chain b u \<noteq> Throws e"
    by (simp add: chain_def new_Promise_def split: prod.splits option.splits)
  from ch es(2,3) assms(1,2) never show ?thesis
    by (intro exI [of _ ?w'] exI [of _ es]) simp
qed

theorem chain_stops_at_first_failure_witness:
  "arrays (world_with [step_one, step_throw_x, step_99]) 0 = Some ([step_one] @ step_throw_x # [step_99])
   \<and> 0 < next_array (world_with [step_one, step_throw_x, step_99])
   \<and> thread_steps [step_one] Undefined (Ref 0) \<lparr>cells = (\<lambda>a. None)(0 \<mapsto> []), next_free = 1\<rparr>
       = Some (Num 1, \<lparr>cells = (\<lambda>a. None)(0 \<mapsto> []), next_free = 1\<rparr>)
   \<and> step_throw_x (Num 1) (Ref 0) \<lparr>cells = (\<lambda>a. None)(0 \<mapsto> []), next_free = 1\<rparr>
       = (\<lparr>cells = (\<lambda>a. None)(0 \<mapsto> []), next_free = 1\<rparr>, Throws (Err ''x''))
   \<and> (\<exists>w' es. chain 0 (world_with [step_one, step_throw_x, step_99])
           = Returns (w', Rejected (Err ''x''))
         \<and> invoked w' = es
         \<and> map i_step es = [step_one, step_throw_x]
         \<and> map i_prev es = [Undefined, Num 1]
         \<and> arrays w' 1 = Some [step_99]
         \<and> arrays w' 0 = Some [step_one, step_throw_x, step_99])"
proof -
  let ?W = "world_with [step_one, step_throw_x, step_99]"
  let ?h = "\<lparr>cells = (\<lambda>a. None)(0 \<mapsto> []), next_free = 1\<rparr>"
  have h1: "arrays ?W 0 = Some ([step_one] @ step_throw_x # [step_99])"
    and h2: "0 < next_array ?W" and h3: "0 = next_free (objects ?W)"
    by (simp_all add: world_with_def)
  have h0: "(objects ?W)\<lparr>cells := (cells (objects ?W))(0 \<mapsto> []), next_free := Suc 0\<rparr> = ?h"
    by (simp add: world_with_def)
  have h4: "thread_steps [step_one] Undefined (Ref 0)
      ((objects ?W)\<lparr>cells := (cells (objects ?W))(0 \<mapsto> []), next_free := Suc 0\<rparr>)
      = Some (Num 1, ?h)"
    unfolding h0 by (simp add: step_one_def outcome_of_def Promise_resolve_def)
  have h5: "step_throw_x (Num 1) (Ref 0) ?h = (?h, Throws (Err ''x''))"
    by (simp add: step_throw_x_def)
  from chain_stops_at_first_failure [of ?W 0 "[step_one]" step_throw_x "[step_99]" 0
      "Num 1" ?h ?h "Throws (Err ''x'')" "Err ''x''"] h1 h2 h3 h4 h5
  obtain w' es where
    r: "chain 0 ?W = Returns (w', Rejected (Err ''x''))" "invoked w' = invoked ?W @ es"
      "map i_step es = [step_one] @ [step_throw_x]"
      "arrays w' (next_array ?W) = Some [step_99]"
      "arrays w' 0 = Some ([step_one] @ step_throw_x # [step_99])"
    by auto
  have inv: "invoked ?W = []" "next_array ?W = 1" by (simp_all add: world_with_def)
  have prevs: "map i_prev es = [Undefined, Num 1]"
    using r(1,2) inv
    by (auto simp: chain_run_steps world_with_def step_one_def step_throw_x_def outcome_of_def
        Promise_resolve_def Let_def)
  from r inv prevs h1 h2 h4 h5 h0 show ?thesis
    by (intro conjI exI [of _ w'] exI [of _ es]) simp_all
qed

subsection \<open>timeout\<close>

text \<open>
  Every callback sets \<^verbatim>\<open>done\<close>, and with \<^verbatim>\<open>done\<close> set no callback does anything: the
  callback that runs first is the only one with an effect.
\<close>

lemma timeout_callback_done: "t_done st \<Longrightarrow> timeout_callback ev st = st"
  by (cases ev) simp_all

lemma timeout_run_done: "t_done st \<Longrightarrow> timeout_run evs st = st"
  unfolding timeout_run_def
  by (induction evs) (simp_all add: timeout_callback_done)

lemma timeout_callback_sets_done: "t_done (timeout_callback ev st)"
  by (cases ev) simp_all

lemma timeout_run_first_wins:
  "timeout_run (ev # evs) st = timeout_callback ev st"
  using timeout_run_done [OF timeout_callback_sets_done, of evs ev st]
  by (simp add: timeout_run_def)

text \<open>
  Claim C4. For every promise \<open>p\<close> and duration \<open>ms\<close>, \<open>timeout ms p\<close> settles once,
  by the callback that runs first: when the timer's callback runs before \<open>p\<close> settles
  (or \<open>p\<close> never settles) the returned promise rejects with the error whose message is
  \<^verbatim>\<open>Promise timed out\<close>; when \<open>p\<close> settles first its value or its error is passed on as
  it is; whatever callback runs later is discarded.

  In the theorem the returned promise is given for each order of the two events, the
  number of calls of \<^verbatim>\<open>resolve\<close> and \<^verbatim>\<open>reject\<close> on it is one, and any further run of
  callbacks leaves the state as it is.
\<close>

theorem timeout_first_settle_wins:
  "t_promise (timeout ms p timer_first) =
     (case p of
        Never \<Rightarrow> Rejected (Err ''Promise timed out'')
      | SettlesAt t oc \<Rightarrow>
          if ms < t \<or> (ms = t \<and> timer_first) then Rejected (Err ''Promise timed out'')
          else (case oc of Fulfills v \<Rightarrow> Fulfilled v | Rejects e \<Rightarrow> Rejected e))
   \<and> t_settlements (timeout ms p timer_first) = 1
   \<and> (\<forall>evs. timeout_run evs (timeout ms p timer_first) = timeout ms p timer_first)"
proof -
  have d: "t_done (timeout ms p timer_first)"
    unfolding timeout_def timeout_events_def
    by (simp add: timeout_run_first_wins timeout_callback_sets_done split: future.splits)
  have "t_promise (timeout ms p timer_first) =
     (case p of
        Never \<Rightarrow> Rejected (Err ''Promise timed out'')
      | SettlesAt t oc \<Rightarrow>
          if ms < t \<or> (ms = t \<and> timer_first) then Rejected (Err ''Promise timed out'')
          else (case oc of Fulfills v \<Rightarrow> Fulfilled v | Rejects e \<Rightarrow> Rejected e))"
    unfolding timeout_def timeout_events_def
    by (cases p; cases "ms < (case p of SettlesAt t oc \<Rightarrow> t | Never \<Rightarrow> 0)")
       (auto simp: timeout_run_first_wins input_event_def resolve_def reject_def
        split: outcome.splits)
  moreover have "t_settlements (timeout ms p timer_first) = 1"
    unfolding timeout_def timeout_events_def
    by (simp add: timeout_run_first_wins input_event_def split: future.splits outcome.splits)
  ultimately show ?thesis using timeout_run_done [OF d] by simp
qed

theorem timeout_first_settle_wins_witness:
  "t_promise (timeout 10 (delay 1000 (Str ''late'')) False) = Rejected (Err ''Promise timed out'')
   \<and> t_promise (timeout 1000 (delay 10 (Str ''early'')) False) = Fulfilled (Str ''early'')
   \<and> t_promise (timeout 1000 (delayReject 10 (Err ''no'')) False) = Rejected (Err ''no'')
   \<and> t_settlements (timeout 1000 (delay 10 (Str ''early'')) False) = 1
   \<and> timeout_run [TimerFires] (timeout 1000 (delay 10 (Str ''early'')) False)
       = timeout 1000 (delay 10 (Str ''early'')) False"
  using timeout_first_settle_wins [of 10 "delay 1000 (Str ''late'')" False]
    timeout_first_settle_wins [of 1000 "delay 10 (Str ''early'')" False]
    timeout_first_settle_wins [of 1000 "delayReject 10 (Err ''no'')" False]
  by (simp add: delay_def delayReject_def)

subsection \<open>waitFor\<close>

lemma run_Nil: "run [] st = st"
  by (simp add: run_def)

lemma run_Cons: "run (ev # evs) st = run evs (fire ev st)"
  by (simp add: run_def)

lemma run_append: "run (xs @ ys) st = run ys (run xs st)"
  by (simp add: run_def)

lemma timeline_None: "timeline None df k n = replicate n Tick"
  by (induction n arbitrary: k) simp_all

text \<open>
  One run of the interval's function on a state that is not stopped: a truthy return
  fulfills while \<^verbatim>\<open>error\<close> is falsy, a truthy throw rejects, and once the deadline has set
  \<^verbatim>\<open>error\<close> any return rejects with the timeout error. Each of them stops the polling. A
  falsy throw and a falsy return leave the promise pending and the interval set.
\<close>

lemma poll_truthy_return:
  assumes "\<not> w_stopped st" and "call_tester (w_tester st) (w_env st) = (s', Returns v)"
    and "truthy v" and "\<not> truthy (w_error st)"
  shows "w_promise (poll st) = resolve v (w_promise st) \<and> w_stopped (poll st)
    \<and> \<not> w_interval (poll st) \<and> w_calls (poll st) = Suc (w_calls st)"
  using assms by (simp add: poll_def Let_def)

lemma poll_truthy_throw:
  assumes "\<not> w_stopped st" and "call_tester (w_tester st) (w_env st) = (s', Throws e)"
    and "truthy e"
  shows "w_promise (poll st) = reject e (w_promise st) \<and> w_stopped (poll st)
    \<and> \<not> w_interval (poll st) \<and> w_calls (poll st) = Suc (w_calls st)"
  using assms by (simp add: poll_def Let_def)

lemma poll_after_deadline:
  assumes "\<not> w_stopped st" and "call_tester (w_tester st) (w_env st) = (s', Returns v)"
    and "w_error st = Err ''timeout''"
  shows "w_promise (poll st) = reject (Err ''timeout'') (w_promise st) \<and> w_stopped (poll st)
    \<and> \<not> w_interval (poll st) \<and> w_calls (poll st) = Suc (w_calls st)"
  using assms by (simp add: poll_def Let_def)

lemma poll_falsy_throw:
  assumes "\<not> w_stopped st" and "call_tester (w_tester st) (w_env st) = (s', Throws e)"
    and "\<not> truthy e" and "\<not> truthy (w_value st)"
  shows "poll st = st\<lparr>w_env := s', w_calls := Suc (w_calls st), w_error := e\<rparr>"
  using assms by (simp add: poll_def Let_def)

lemma poll_falsy_return:
  assumes "\<not> w_stopped st" and "call_tester (w_tester st) (w_env st) = (s', Returns v)"
    and "\<not> truthy v" and "\<not> truthy (w_error st)"
  shows "poll st = st\<lparr>w_env := s', w_calls := Suc (w_calls st), w_value := v\<rparr>"
  using assms by (simp add: poll_def Let_def)

lemma fire_cleared:
  assumes "\<not> w_interval st"
  shows "w_calls (fire ev st) = w_calls st \<and> w_promise (fire ev st) = w_promise st
    \<and> \<not> w_interval (fire ev st)"
  using assms by (cases ev) (simp_all add: on_deadline_def)

lemma run_cleared:
  assumes "\<not> w_interval st"
  shows "w_calls (run evs st) = w_calls st \<and> w_promise (run evs st) = w_promise st"
  using assms
proof (induction evs arbitrary: st)
  case Nil
  then show ?case by (simp add: run_Nil)
next
  case (Cons ev evs)
  from fire_cleared [OF Cons.prems, of ev] Cons.IH [of "fire ev st"]
  show ?case by (simp add: run_Cons)
qed

text \<open>
  The two examples of the spec: a tester that returns \<^verbatim>\<open>false\<close> twice and then \<^verbatim>\<open>42\<close>
  fulfills with \<^verbatim>\<open>42\<close> at its third call and is not called again; with a deadline of 20
  milliseconds, \<^verbatim>\<open>() => false\<close> is rejected with the timeout error at the first tick after
  the deadline and is not called again.
\<close>

lemma waitFor_third_call_fulfills:
  "w_promise (waitFor_after (3 + n) df (Function tester_42_at_third) (Value (Plain Undefined)) 0)
     = Fulfilled (Num 42)
   \<and> w_calls (waitFor_after (3 + n) df (Function tester_42_at_third) (Value (Plain Undefined)) 0) = 3"
proof -
  let ?st = "waitFor (Function tester_42_at_third) (Value (Plain Undefined)) (0::nat)"
  let ?st3 = "run [Tick, Tick, Tick] ?st"
  have st3: "w_promise ?st3 = Fulfilled (Num 42) \<and> w_calls ?st3 = 3 \<and> \<not> w_interval ?st3"
    by (simp add: run_def waitFor_def poll_def call_tester_def tester_42_at_third_def Let_def
        resolve_def)
  have "waitFor_after (3 + n) df (Function tester_42_at_third) (Value (Plain Undefined)) 0
      = run (replicate (3 + n) Tick) ?st"
    by (simp add: waitFor_after_def waitFor_def deadline_of_def timeline_None)
  also have "\<dots> = run (replicate n Tick) ?st3"
    by (simp add: run_append [symmetric] numeral_3_eq_3 del: replicate_Suc)
       (simp add: run_def)
  finally show ?thesis using run_cleared [of ?st3 "replicate n Tick"] st3 by simp
qed

lemma waitFor_false_times_out:
  "w_promise (waitFor_after (3 + n) df (Value (Plain (Num 20))) (Function tester_false) ())
     = Rejected (Err ''timeout'')
   \<and> w_calls (waitFor_after (3 + n) df (Value (Plain (Num 20))) (Function tester_false) ())
     = (if df then 2 else 3)"
proof -
  let ?st = "waitFor (Value (Plain (Num 20))) (Function tester_false) ()"
  let ?evs = "timeline (Some 20) df 0 3"
  have evs: "?evs = (if df then [Tick, Deadline, Tick, Tick] else [Tick, Tick, Deadline, Tick])"
    by (simp add: numeral_3_eq_3)
  have st3: "w_promise (run ?evs ?st) = Rejected (Err ''timeout'')
      \<and> w_calls (run ?evs ?st) = (if df then 2 else 3) \<and> \<not> w_interval (run ?evs ?st)"
    by (simp add: evs run_def waitFor_def poll_def on_deadline_def call_tester_def tester_false_def
        Let_def reject_def)
  have tl: "timeline (Some 20) df 0 (3 + n) = ?evs @ replicate n Tick"
    by (simp add: numeral_3_eq_3 timeline_None)
  have "waitFor_after (3 + n) df (Value (Plain (Num 20))) (Function tester_false) ()
      = run (replicate n Tick) (run ?evs ?st)"
    unfolding waitFor_after_def by (simp add: waitFor_def deadline_of_def tl run_append Let_def del: timeline.simps)
  then show ?thesis using run_cleared [of "run ?evs ?st" "replicate n Tick"] st3 by simp
qed

text \<open>
  Ticks on which the tester throws \<^verbatim>\<open>null\<close>, and ticks on which it returns the same falsy
  value, change nothing but the counts.
\<close>

lemma ticks_throwing_null:
  assumes "w_tester st = Function tester_throws_null" and "\<not> w_stopped st" and "w_interval st"
    and "\<not> truthy (w_value st)" and "w_error st = Null"
  shows "run (replicate n Tick) st = st\<lparr>w_calls := w_calls st + n\<rparr>"
  using assms
proof (induction n arbitrary: st)
  case 0
  then show ?case by (simp add: run_Nil)
next
  case (Suc n)
  have ct: "call_tester (w_tester st) (w_env st) = (w_env st, Throws Null)"
    using Suc.prems(1) by (simp add: call_tester_def tester_throws_null_def)
  have p: "poll st = st\<lparr>w_calls := Suc (w_calls st)\<rparr>"
    using poll_falsy_throw [OF Suc.prems(2) ct _ Suc.prems(4)] Suc.prems(5)
    by simp
  have "run (replicate (Suc n) Tick) st = run (replicate n Tick) (poll st)"
    using Suc.prems(3) by (simp add: run_Cons)
  also have "\<dots> = (poll st)\<lparr>w_calls := w_calls (poll st) + n\<rparr>"
    using Suc.prems by (intro Suc.IH) (simp_all add: p)
  finally show ?case by (simp add: p)
qed

lemma ticks_returning_falsy:
  assumes "w_tester st = Function f" and "\<forall>k \<ge> w_env st. f k = (Suc k, Returns v)"
    and "\<not> truthy v" and "\<not> w_stopped st" and "w_interval st" and "\<not> truthy (w_error st)"
    and "w_value st = v"
  shows "run (replicate n Tick) st = st\<lparr>w_env := w_env st + n, w_calls := w_calls st + n\<rparr>"
  using assms
proof (induction n arbitrary: st)
  case 0
  then show ?case by (simp add: run_Nil)
next
  case (Suc n)
  have ct: "call_tester (w_tester st) (w_env st) = (Suc (w_env st), Returns v)"
    using Suc.prems(1,2) by (simp add: call_tester_def)
  have p: "poll st = st\<lparr>w_env := Suc (w_env st), w_calls := Suc (w_calls st)\<rparr>"
    using poll_falsy_return [OF Suc.prems(4) ct Suc.prems(3) Suc.prems(6)] Suc.prems(7)
    by simp
  have "run (replicate (Suc n) Tick) st = run (replicate n Tick) (poll st)"
    using Suc.prems(5) by (simp add: run_Cons)
  also have "\<dots> = (poll st)\<lparr>w_env := w_env (poll st) + n, w_calls := w_calls (poll st) + n\<rparr>"
    using Suc.prems by (intro Suc.IH) (simp_all add: p)
  finally show ?case by (simp add: p)
qed

text \<open>
  Claim C5 says that an invocation of the tester that throws \<open>e\<close> rejects the promise
  with \<open>e\<close> and stops the polling. The code tests \<^verbatim>\<open>value || error\<close>, so a thrown
  falsy value is not seen: for \<^verbatim>\<open>waitFor(() => { throw null })\<close>, after any number \<open>n\<close> of
  ticks the promise is still pending, the tester has been invoked \<open>n\<close> times and the
  interval is still set.
\<close>

theorem waitFor_swallows_thrown_null:
  "w_promise (waitFor_after n df (Function tester_throws_null) (Value (Plain Undefined)) ()) = Pending
   \<and> w_calls (waitFor_after n df (Function tester_throws_null) (Value (Plain Undefined)) ()) = n
   \<and> w_interval (waitFor_after n df (Function tester_throws_null) (Value (Plain Undefined)) ())"
proof -
  let ?st = "waitFor (Function tester_throws_null) (Value (Plain Undefined)) ()"
  have "waitFor_after n df (Function tester_throws_null) (Value (Plain Undefined)) ()
      = run (replicate n Tick) ?st"
    by (simp add: waitFor_after_def waitFor_def deadline_of_def timeline_None)
  also have "\<dots> = ?st\<lparr>w_calls := w_calls ?st + n\<rparr>"
    by (rule ticks_throwing_null) (simp_all add: waitFor_def)
  finally show ?thesis by (simp add: waitFor_def)
qed

text \<open>
  Claim C10 says that once the deadline has passed the promise is rejected at the next
  tick, with the tester's error when the tester throws there. For \<^verbatim>\<open>waitFor(15, tester)\<close>
  with a tester that returns \<^verbatim>\<open>false\<close> at 10 milliseconds and throws \<^verbatim>\<open>null\<close> at 20, the
  \<^verbatim>\<open>catch\<close> clause overwrites the timeout error with \<^verbatim>\<open>null\<close>: after any number of further
  ticks the promise is pending, the timer has fired, \<^verbatim>\<open>error\<close> is \<^verbatim>\<open>null\<close>, and the tester is
  still being invoked.
\<close>

theorem waitFor_thrown_null_erases_timeout:
  "w_promise (waitFor_after (Suc (Suc n)) df (Value (Plain (Num 15))) (Function tester_null_at_second) 0)
     = Pending
   \<and> w_calls (waitFor_after (Suc (Suc n)) df (Value (Plain (Num 15))) (Function tester_null_at_second) 0)
     = Suc (Suc n)
   \<and> w_error (waitFor_after (Suc (Suc n)) df (Value (Plain (Num 15))) (Function tester_null_at_second) 0)
     = Null
   \<and> w_timer (waitFor_after (Suc (Suc n)) df (Value (Plain (Num 15))) (Function tester_null_at_second) 0)
     = False
   \<and> w_interval (waitFor_after (Suc (Suc n)) df (Value (Plain (Num 15))) (Function tester_null_at_second) 0)"
proof -
  let ?st = "waitFor (Value (Plain (Num 15))) (Function tester_null_at_second) (0::nat)"
  let ?st3 = "run [Tick, Deadline, Tick] ?st"
  have st3: "?st3 = ?st\<lparr>w_env := 2, w_calls := 2, w_value := Bool False, w_error := Null,
      w_timer := False\<rparr>"
    by (simp add: run_def waitFor_def poll_def on_deadline_def call_tester_def
        tester_null_at_second_def Let_def)
  have "waitFor_after (Suc (Suc n)) df (Value (Plain (Num 15))) (Function tester_null_at_second) 0
      = run ([Tick, Deadline, Tick] @ replicate n Tick) ?st"
    by (simp add: waitFor_after_def waitFor_def deadline_of_def timeline_None)
  also have "\<dots> = run (replicate n Tick) ?st3"
    by (simp only: run_append)
  also have "\<dots> = ?st3\<lparr>w_env := w_env ?st3 + n, w_calls := w_calls ?st3 + n\<rparr>"
    unfolding st3
    by (rule ticks_returning_falsy [where f = tester_null_at_second and v = "Bool False"])
       (simp_all add: waitFor_def tester_null_at_second_def)
  finally show ?thesis unfolding st3 by (simp add: waitFor_def)
qed

text \<open>
  Claim C3 says that when the deadline passes before the tester returned a truthy value
  or threw, the promise is rejected with a timeout error and the polling stops. For
  \<^verbatim>\<open>waitFor(25, tester)\<close> with a tester that returns \<^verbatim>\<open>0\<close> at 10 and 20 milliseconds and throws
  at 30: when it throws \<^verbatim>\<open>undefined\<close> the promise is never rejected and the polling never
  stops; when it throws \<^verbatim>\<open>new Error("boom")\<close> the promise is rejected with that error, not
  with the timeout error.
\<close>

theorem waitFor_deadline_lost_or_replaced:
  "w_promise (waitFor_after (Suc (Suc (Suc n))) df (Value (Plain (Num 25)))
       (Function tester_undefined_at_third) 0) = Pending
   \<and> w_calls (waitFor_after (Suc (Suc (Suc n))) df (Value (Plain (Num 25)))
       (Function tester_undefined_at_third) 0) = Suc (Suc (Suc n))
   \<and> w_interval (waitFor_after (Suc (Suc (Suc n))) df (Value (Plain (Num 25)))
       (Function tester_undefined_at_third) 0)
   \<and> w_promise (waitFor_after (Suc (Suc (Suc n))) df (Value (Plain (Num 25)))
       (Function tester_boom_at_third) 0) = Rejected (Err ''boom'')"
proof -
  let ?st = "waitFor (Value (Plain (Num 25))) (Function tester_undefined_at_third) (0::nat)"
  let ?st4 = "run [Tick, Tick, Deadline, Tick] ?st"
  have st4: "?st4 = ?st\<lparr>w_env := 3, w_calls := 3, w_value := Num 0, w_error := Undefined,
      w_timer := False\<rparr>"
    by (simp add: run_def waitFor_def poll_def on_deadline_def call_tester_def
        tester_undefined_at_third_def Let_def)
  have "waitFor_after (Suc (Suc (Suc n))) df (Value (Plain (Num 25)))
       (Function tester_undefined_at_third) 0
      = run ([Tick, Tick, Deadline, Tick] @ replicate n Tick) ?st"
    by (simp add: waitFor_after_def waitFor_def deadline_of_def timeline_None)
  also have "\<dots> = run (replicate n Tick) ?st4"
    by (simp only: run_append)
  also have "\<dots> = ?st4\<lparr>w_env := w_env ?st4 + n, w_calls := w_calls ?st4 + n\<rparr>"
    unfolding st4
    by (rule ticks_returning_falsy [where f = tester_undefined_at_third and v = "Num 0"])
       (simp_all add: waitFor_def tester_undefined_at_third_def)
  finally have lost: "waitFor_after (Suc (Suc (Suc n))) df (Value (Plain (Num 25)))
       (Function tester_undefined_at_third) 0
     = ?st4\<lparr>w_env := w_env ?st4 + n, w_calls := w_calls ?st4 + n\<rparr>" .
  let ?sb = "waitFor (Value (Plain (Num 25))) (Function tester_boom_at_third) (0::nat)"
  let ?sb4 = "run [Tick, Tick, Deadline, Tick] ?sb"
  have sb4: "w_promise ?sb4 = Rejected (Err ''boom'') \<and> \<not> w_interval ?sb4"
    by (simp add: run_def waitFor_def poll_def on_deadline_def call_tester_def
        tester_boom_at_third_def Let_def reject_def)
  have "waitFor_after (Suc (Suc (Suc n))) df (Value (Plain (Num 25)))
       (Function tester_boom_at_third) 0
      = run ([Tick, Tick, Deadline, Tick] @ replicate n Tick) ?sb"
    by (simp add: waitFor_after_def waitFor_def deadline_of_def timeline_None)
  also have "\<dots> = run (replicate n Tick) ?sb4"
    by (simp only: run_append)
  finally have "w_promise (waitFor_after (Suc (Suc (Suc n))) df (Value (Plain (Num 25)))
       (Function tester_boom_at_third) 0) = Rejected (Err ''boom'')"
    using run_cleared [of ?sb4 "replicate n Tick"] sb4 by simp
  with lost show ?thesis unfolding st4 by (simp add: waitFor_def)
qed

subsection \<open>finally\<close>

text \<open>
  When the cleanup function returns, or throws anything but \<^verbatim>\<open>null\<close> and \<^verbatim>\<open>undefined\<close>, it
  is invoked once and the returned promise ends as the given one does.
\<close>

lemma try_finallyFn_once:
  assumes "finallyFn (f_env st) = (s', c)" and "c \<noteq> Throws Null" and "c \<noteq> Throws Undefined"
  shows "snd (try_finallyFn finallyFn st) = None
    \<and> f_calls (fst (try_finallyFn finallyFn st)) = Suc (f_calls st)
    \<and> f_env (fst (try_finallyFn finallyFn st)) = s'"
proof (cases c)
  case (Returns v)
  with assms(1) show ?thesis by (simp add: try_finallyFn_def)
next
  case (Throws err)
  with assms(2,3) have "err \<noteq> Null" "err \<noteq> Undefined" by auto
  then obtain stk where "get_stack err = Returns stk" by (cases err) simp_all
  with assms(1) Throws show ?thesis by (simp add: try_finallyFn_def)
qed

lemma promise_finally_keeps_outcome:
  assumes "finallyFn (f_env st) = (s', c)" and "c \<noteq> Throws Null" and "c \<noteq> Throws Undefined"
  shows "snd (promise_finally p finallyFn st) = Promise_resolve p
    \<and> f_calls (fst (promise_finally p finallyFn st))
        = (if Promise_resolve p = Pending then f_calls st else Suc (f_calls st))"
proof -
  obtain st1 where t: "try_finallyFn finallyFn st = (st1, None)" "f_calls st1 = Suc (f_calls st)"
    using try_finallyFn_once [of finallyFn st s' c] assms
    by (cases "try_finallyFn finallyFn st") auto
  show ?thesis
    by (cases "Promise_resolve p")
       (simp_all add: promise_finally_def then_do_def catch_do_def finally_onFulfilled_def
         finally_onRejected_def t)
qed

text \<open>
  Claim C6 says that the cleanup function runs once and that an error it throws is only
  logged. When it throws \<^verbatim>\<open>null\<close>, the \<^verbatim>\<open>catch\<close> block's \<^verbatim>\<open>err.stack\<close> throws a TypeError:
  for a promise fulfilled with 5 the \<^verbatim>\<open>then\<close> handler throws it, the \<^verbatim>\<open>catch\<close> handler
  invokes the cleanup a second time and the returned promise is rejected with a TypeError;
  for a rejected promise the TypeError takes the place of the original error.
\<close>

theorem promise_finally_cleanup_throwing_null:
  "promise_finally (Thenable (Fulfilled (Num 5))) cleanup_throws_null
       \<lparr>f_env = (), f_calls = 0, f_console = []\<rparr>
     = (\<lparr>f_env = (), f_calls = 2, f_console = []\<rparr>,
        Rejected (TypeErr ''Cannot read properties of null''))
   \<and> promise_finally (Thenable (Rejected (Err ''original''))) cleanup_throws_null
       \<lparr>f_env = (), f_calls = 0, f_console = []\<rparr>
     = (\<lparr>f_env = (), f_calls = 1, f_console = []\<rparr>,
        Rejected (TypeErr ''Cannot read properties of null''))"
  by (simp add: promise_finally_def then_do_def catch_do_def finally_onFulfilled_def
      finally_onRejected_def try_finallyFn_def cleanup_throws_null_def Promise_resolve_def)

subsection \<open>convertCallbackFun, convertCallbackFunWithManyArgs and promise\<close>

text \<open>
  A settled promise is not changed by a later call of the completion function, nor by a
  throw out of the application.
\<close>

lemma settled_resolve: "p \<noteq> Pending \<Longrightarrow> resolve v p = p"
  by (cases p) (simp_all add: resolve_def)

lemma settled_reject: "p \<noteq> Pending \<Longrightarrow> reject e p = p"
  by (cases p) (simp_all add: reject_def)

lemma completion_one_settled: "p \<noteq> Pending \<Longrightarrow> completion_one xs p = p"
  by (simp add: completion_one_def Let_def settled_resolve settled_reject)

lemma completion_many_settled: "p \<noteq> Pending \<Longrightarrow> completion_many xs p = p"
  by (simp add: completion_many_def Let_def settled_resolve settled_reject split: prod.splits)

lemma actions_after_settled:
  assumes "\<And>xs p. p \<noteq> Pending \<Longrightarrow> completion xs p = p" and "p \<noteq> Pending"
  shows "foldl (\<lambda>p a. case a of CallsBack xs \<Rightarrow> completion xs p | ThrowsSync e \<Rightarrow> reject e p) p acts = p"
  using assms(2)
  by (induction acts) (simp_all add: assms(1) settled_reject split: action.splits)

lemma completion_one_pending:
  "completion_one (err # result # others) Pending = (if truthy err then Rejected err else Fulfilled result)"
  by (simp add: completion_one_def param_def resolve_def reject_def)

lemma completion_many_pending:
  "completion_many (err # results) Pending = (if truthy err then Rejected err else Fulfilled (Arr results))"
  by (simp add: completion_many_def resolve_def reject_def)

text \<open>
  On a pending promise the completion functions always settle, whatever the number of
  arguments: a parameter that was not passed is \<^verbatim>\<open>undefined\<close>, and the shift of an empty
  argument list leaves the empty list.
\<close>

lemma completion_one_cases:
  "completion_one [] Pending = Fulfilled Undefined"
  "completion_one [err] Pending = (if truthy err then Rejected err else Fulfilled Undefined)"
  by (simp_all add: completion_one_def param_def resolve_def reject_def)

lemma completion_many_empty: "completion_many [] Pending = Fulfilled (Arr [])"
  by (simp add: completion_many_def resolve_def)

lemma completion_one_settles: "completion_one xs Pending \<noteq> Pending"
  by (simp add: completion_one_def Let_def resolve_def reject_def)

lemma completion_many_settles: "completion_many xs Pending \<noteq> Pending"
  by (cases xs) (simp_all add: completion_many_def resolve_def reject_def)

text \<open>
  The promise of an application, by the first thing the function does: a call of the
  completion function settles it as that call says, a throw rejects it, and a function
  that does neither leaves it pending.
\<close>

lemma apply_func_first:
  assumes "\<And>xs p. p \<noteq> Pending \<Longrightarrow> completion xs p = p"
    and "\<And>xs. completion xs Pending \<noteq> Pending"
  shows "func self args = CallsBack xs # acts \<Longrightarrow>
           apply_func completion func self args = completion xs Pending"
    and "func self args = ThrowsSync e # acts \<Longrightarrow>
           apply_func completion func self args = Rejected e"
    and "func self args = [] \<Longrightarrow> apply_func completion func self args = Pending"
proof -
  note settled = actions_after_settled [of completion, OF assms(1)]
  have r: "reject e Pending = Rejected e" by (simp add: reject_def)
  show "apply_func completion func self args = completion xs Pending"
    if "func self args = CallsBack xs # acts"
    using that settled [of "completion xs Pending" acts] assms(2) by (simp add: apply_func_def)
  show "apply_func completion func self args = Rejected e"
    if "func self args = ThrowsSync e # acts"
    using that settled [of "Rejected e" acts] by (simp add: apply_func_def r)
  show "apply_func completion func self args = Pending" if "func self args = []"
    using that by (simp add: apply_func_def)
qed

text \<open>
  Claim C7. For every function \<open>func\<close>, \<open>convertCallbackFun func\<close> applies nothing;
  each call of the function it returns applies \<open>func\<close> once, to the caller's \<^verbatim>\<open>this\<close> and
  to the call's arguments followed by the completion function; when the completion
  function runs with \<open>err\<close>, \<open>result\<close> and further arguments, the promise rejects with
  \<open>err\<close> if \<open>err\<close> is truthy and else fulfills with \<open>result\<close>, the further arguments
  being dropped.

  In the theorem the completion function is taken on the pending promise of the call, for
  every number of arguments: called with none it fulfills with \<^verbatim>\<open>undefined\<close>, called with
  \<open>err\<close> alone it rejects with a truthy \<open>err\<close> and else fulfills with \<^verbatim>\<open>undefined\<close>. The
  promise of a call is given by the first thing \<open>func\<close> does: for a call of the
  completion function on any list \<open>xs\<close> of arguments it is what the completion function
  makes of the pending promise, for a throw of \<open>e\<close> it is rejected with \<open>e\<close>, and when
  \<open>func\<close> does neither it stays pending.
\<close>

theorem convertCallbackFun_adapts:
  "fst (convertCallbackFun func tr) = tr
   \<and> fst (snd (convertCallbackFun func tr) self arguments tr1)
       = tr1 @ [(func, self, map Arg arguments @ [Callback])]
   \<and> completion_one [] Pending = Fulfilled Undefined
   \<and> completion_one [err] Pending = (if truthy err then Rejected err else Fulfilled Undefined)
   \<and> completion_one (err # result # others) Pending
       = (if truthy err then Rejected err else Fulfilled result)
   \<and> (func self (map Arg arguments @ [Callback]) = CallsBack (err # result # others) # acts \<longrightarrow>
        snd (snd (convertCallbackFun func tr) self arguments tr1)
          = (if truthy err then Rejected err else Fulfilled result))
   \<and> (func self (map Arg arguments @ [Callback]) = CallsBack xs # acts \<longrightarrow>
        snd (snd (convertCallbackFun func tr) self arguments tr1) = completion_one xs Pending)
   \<and> (func self (map Arg arguments @ [Callback]) = ThrowsSync e # acts \<longrightarrow>
        snd (snd (convertCallbackFun func tr) self arguments tr1) = Rejected e)
   \<and> (func self (map Arg arguments @ [Callback]) = [] \<longrightarrow>
        snd (snd (convertCallbackFun func tr) self arguments tr1) = Pending)"
proof -
  note first = apply_func_first [of completion_one, OF completion_one_settled completion_one_settles]
  have "snd (snd (convertCallbackFun func tr) self arguments tr1)
      = apply_func completion_one func self (map Arg arguments @ [Callback])"
    by (simp add: convertCallbackFun_def promiseGenerator_def Let_def)
  moreover have "fst (snd (convertCallbackFun func tr) self arguments tr1)
       = tr1 @ [(func, self, map Arg arguments @ [Callback])]"
    by (simp add: convertCallbackFun_def promiseGenerator_def Let_def)
  ultimately show ?thesis
    using first [of func self "map Arg arguments @ [Callback]"]
    by (simp add: convertCallbackFun_def completion_one_cases completion_one_pending)
qed

theorem convertCallbackFun_adapts_witness:
  "fn_double Undefined (map Arg [Num 3] @ [Callback]) = CallsBack (Null # Num 6 # []) # []
   \<and> snd (snd (convertCallbackFun fn_double []) Undefined [Num 3] []) = Fulfilled (Num 6)
   \<and> fst (snd (convertCallbackFun fn_double []) Undefined [Num 3] [])
       = [(fn_double, Undefined, [Arg (Num 3), Callback])]
   \<and> fn_bad Undefined (map Arg [Num 3] @ [Callback]) = CallsBack [Err ''bad''] # []
   \<and> snd (snd (convertCallbackFun fn_bad []) Undefined [Num 3] []) = Rejected (Err ''bad'')"
proof -
  have d: "fn_double Undefined (map Arg [Num 3] @ [Callback]) = CallsBack (Null # Num 6 # []) # []"
    by (simp add: fn_double_def)
  have b: "fn_bad Undefined (map Arg [Num 3] @ [Callback]) = CallsBack [Err ''bad''] # []"
    by (simp add: fn_bad_def)
  from convertCallbackFun_adapts
    [where func = fn_double and tr = "[]" and self = Undefined and arguments = "[Num 3]"
      and ?tr1.0 = "[]" and err = Null and result = "Num 6" and others = "[]" and acts = "[]"] d
  have "snd (snd (convertCallbackFun fn_double []) Undefined [Num 3] []) = Fulfilled (Num 6)"
    and "fst (snd (convertCallbackFun fn_double []) Undefined [Num 3] [])
       = [(fn_double, Undefined, [Arg (Num 3), Callback])]"
    by simp_all
  moreover from convertCallbackFun_adapts
    [where func = fn_bad and tr = "[]" and self = Undefined and arguments = "[Num 3]"
      and ?tr1.0 = "[]" and err = "Err ''bad''" and xs = "[Err ''bad'']" and acts = "[]"] b
  have "snd (snd (convertCallbackFun fn_bad []) Undefined [Num 3] []) = Rejected (Err ''bad'')"
    by simp
  ultimately show ?thesis using d b by simp
qed

text \<open>
  Claim C8. For every function \<open>func\<close>, the function \<open>convertCallbackFunWithManyArgs\<close>
  returns fulfills its promise with the list of all result arguments given to the
  completion function when the error argument is falsy, and rejects with the error
  argument when it is truthy.

  In the theorem the completion function is taken on the pending promise of the call, for
  every number of arguments: called with none it fulfills with the empty list. The
  promise of a call is given by the first thing \<open>func\<close> does, as for
  \<open>convertCallbackFun\<close>.
\<close>

theorem convertCallbackFunWithManyArgs_adapts:
  "fst (convertCallbackFunWithManyArgs func tr) = tr
   \<and> fst (snd (convertCallbackFunWithManyArgs func tr) self arguments tr1)
       = tr1 @ [(func, self, map Arg arguments @ [Callback])]
   \<and> completion_many [] Pending = Fulfilled (Arr [])
   \<and> completion_many (err # results) Pending
       = (if truthy err then Rejected err else Fulfilled (Arr results))
   \<and> (func self (map Arg arguments @ [Callback]) = CallsBack (err # results) # acts \<longrightarrow>
        snd (snd (convertCallbackFunWithManyArgs func tr) self arguments tr1)
          = (if truthy err then Rejected err else Fulfilled (Arr results)))
   \<and> (func self (map Arg arguments @ [Callback]) = CallsBack xs # acts \<longrightarrow>
        snd (snd (convertCallbackFunWithManyArgs func tr) self arguments tr1)
          = completion_many xs Pending)
   \<and> (func self (map Arg arguments @ [Callback]) = ThrowsSync e # acts \<longrightarrow>
        snd (snd (convertCallbackFunWithManyArgs func tr) self arguments tr1) = Rejected e)
   \<and> (func self (map Arg arguments @ [Callback]) = [] \<longrightarrow>
        snd (snd (convertCallbackFunWithManyArgs func tr) self arguments tr1) = Pending)"
proof -
  note first = apply_func_first [of completion_many, OF completion_many_settled completion_many_settles]
  have "snd (snd (convertCallbackFunWithManyArgs func tr) self arguments tr1)
      = apply_func completion_many func self (map Arg arguments @ [Callback])"
    by (simp add: convertCallbackFunWithManyArgs_def promiseGeneratorManyArgs_def Let_def)
  moreover have "fst (snd (convertCallbackFunWithManyArgs func tr) self arguments tr1)
       = tr1 @ [(func, self, map Arg arguments @ [Callback])]"
    by (simp add: convertCallbackFunWithManyArgs_def promiseGeneratorManyArgs_def Let_def)
  ultimately show ?thesis
    using first [of func self "map Arg arguments @ [Callback]"]
    by (simp add: convertCallbackFunWithManyArgs_def completion_many_empty completion_many_pending)
qed

theorem convertCallbackFunWithManyArgs_adapts_witness:
  "fn_123 Undefined (map Arg [] @ [Callback]) = CallsBack (Null # [Num 1, Num 2, Num 3]) # []
   \<and> snd (snd (convertCallbackFunWithManyArgs fn_123 []) Undefined [] [])
       = Fulfilled (Arr [Num 1, Num 2, Num 3])
   \<and> fn_silent Undefined (map Arg [] @ [Callback]) = []
   \<and> snd (snd (convertCallbackFunWithManyArgs fn_silent []) Undefined [] []) = Pending"
proof -
  have d: "fn_123 Undefined (map Arg [] @ [Callback]) = CallsBack (Null # [Num 1, Num 2, Num 3]) # []"
    by (simp add: fn_123_def)
  have n: "fn_silent Undefined (map Arg [] @ [Callback]) = []"
    by (simp add: fn_silent_def)
  from convertCallbackFunWithManyArgs_adapts
    [where func = fn_123 and tr = "[]" and self = Undefined and arguments = "[]"
      and ?tr1.0 = "[]" and err = Null and results = "[Num 1, Num 2, Num 3]" and acts = "[]"] d
  have "snd (snd (convertCallbackFunWithManyArgs fn_123 []) Undefined [] [])
       = Fulfilled (Arr [Num 1, Num 2, Num 3])"
    by simp
  moreover from convertCallbackFunWithManyArgs_adapts
    [where func = fn_silent and tr = "[]" and self = Undefined and arguments = "[]"
      and ?tr1.0 = "[]"] n
  have "snd (snd (convertCallbackFunWithManyArgs fn_silent []) Undefined [] []) = Pending"
    by simp
  ultimately show ?thesis using d n by simp
qed

text \<open>
  Claim C9, as the spec words it, says that \<open>promise obj\<close> is a function exactly when
  \<open>obj\<close> is a callback-style function, and a promise for every other value. The code
  tests \<^verbatim>\<open>typeof obj === "function"\<close> and nothing else. \<open>fn_silent\<close> never calls a
  completion function, whatever it is applied to, so it is not callback-style; yet
  \<open>promise\<close> gives a function for it and no promise, and the promise of every call of
  that function stays pending.
\<close>

theorem promise_converts_counterexample:
  "(\<forall>self args. fn_silent self args = [])
   \<and> isl (snd (promise (Function fn_silent) []))
   \<and> (\<forall>p. snd (promise (Function fn_silent) []) \<noteq> Inr p)
   \<and> (\<forall>self arguments tr.
         snd (projl (snd (promise (Function fn_silent) [])) self arguments tr) = Pending)"
  by (simp add: fn_silent_def promise_def convertCallbackFun_def promiseGenerator_def
      apply_func_def)

text \<open>
  Claim C9, amended. \<open>promise obj\<close> is \<open>convertCallbackFun obj\<close>, a function and not a
  promise, exactly when \<^verbatim>\<open>typeof obj\<close> is \<^verbatim>\<open>function\<close>, whether the function is
  callback-style or not; for any other value it is a promise that fulfills with the
  value, or that ends as the value does when the value is a promise already. It applies
  nothing.
\<close>

theorem promise_converts:
  "promise (Function f) tr = (tr, Inl (snd (convertCallbackFun f tr)))
   \<and> promise (Value (Plain v)) tr = (tr, Inr (Fulfilled v))
   \<and> promise (Value (Thenable s)) tr = (tr, Inr s)
   \<and> isl (snd (promise obj tr)) = (typeof obj = ''function'')
   \<and> fst (promise obj tr) = tr"
proof -
  have "isl (snd (promise obj tr)) = (typeof obj = ''function'')"
  proof (cases obj)
    case (Function g)
    then show ?thesis by (simp add: promise_def convertCallbackFun_def)
  next
    case (Value r)
    then show ?thesis
      by (cases "Value r :: func jsarg" rule: typeof.cases) (auto simp: promise_def)
  qed
  moreover have "fst (promise obj tr) = tr"
    by (cases obj) (simp_all add: promise_def convertCallbackFun_def)
  ultimately show ?thesis
    by (simp add: promise_def convertCallbackFun_def Promise_resolve_def)
qed

theorem promise_converts_witness:
  "snd (promise (Value (Plain (Str ''foo''))) []) = Inr (Fulfilled (Str ''foo''))
   \<and> snd (promise (Value (Thenable (Fulfilled (Num 23)))) []) = Inr (Fulfilled (Num 23))
   \<and> (\<exists>g. snd (promise (Function fn_double) []) = Inl g
          \<and> snd (g Undefined [Num 3] []) = Fulfilled (Num 6))"
  using promise_converts [of fn_double "[]" "Str ''foo''" "Fulfilled (Num 23)" "Value (Plain Null)"]
  by (simp add: convertCallbackFun_def promiseGenerator_def apply_func_def fn_double_def
      completion_one_def param_def resolve_def)

end
